theory Spec2Isabelle
  imports Main "HOL-Library.Multiset" "HOL-Library.Sublist"
begin

section \<open>Errors\<close>

text \<open>
  Every failure of the library is a C++ exception. The library's own failures are
  \<^verbatim>\<open>wfs::Exception\<close> (an alias of \<^verbatim>\<open>std::runtime_error\<close>) carrying a
  message; they are told apart here by the message. \<open>FilesystemError\<close> stands for the
  \<^verbatim>\<open>fs::filesystem_error\<close> and \<open>LengthError\<close> for the \<^verbatim>\<open>std::length_error\<close>
  thrown by the standard library, and \<open>NullDereference\<close> for the undefined behaviour of
  dereferencing a null pointer.
\<close>

datatype error =
    InvalidFileName string      \<comment> \<open>"Invalid file name: ..."\<close>
  | FailedToOpen string         \<comment> \<open>"Failed to open the file: ..."\<close>
  | NotDirectory string         \<comment> \<open>"The specified path is not directory or not exists. ..."\<close>
  | FilesystemError string
  | LengthError
  | NullDereference

section \<open>Names\<close>

definition FILENAME_INVALID_CHARS :: string where
  "FILENAME_INVALID_CHARS =
     [CHR 0x5C, CHR ''/'', CHR '':'', CHR ''*'', CHR ''?'', CHR 0x22, CHR ''<'', CHR ''>'', CHR ''|'']"

text \<open>\<^verbatim>\<open>std::string::find_first_of\<close>: the first position holding one of the
  characters, \<open>None\<close> for \<^verbatim>\<open>npos\<close>.\<close>

fun find_first_of :: "string \<Rightarrow> string \<Rightarrow> nat option" where
  "find_first_of [] cs = None"
| "find_first_of (c # s) cs =
     (if c \<in> set cs then Some 0 else map_option Suc (find_first_of s cs))"

definition isValidFilename :: "string \<Rightarrow> bool" where
  "isValidFilename filename =
     (if filename = [] then False
      else if filename = ''.'' \<or> filename = ''..'' then False
      else if find_first_of filename FILENAME_INVALID_CHARS \<noteq> None then False
      else True)"

section \<open>File\<close>

text \<open>
  \<^verbatim>\<open>String* data_\<close> (here \<open>data'\<close>: a trailing underscore of the source is
  written as a prime) is an owning pointer: \<open>None\<close> is \<^verbatim>\<open>nullptr\<close>, \<open>Some s\<close>
  a heap string owned by this file alone. A byte is a \<open>char\<close>.
\<close>

record File =
  name' :: string
  data' :: "string option"

definition File_default :: File where
  "File_default = \<lparr>name' = [], data' = None\<rparr>"

definition File_name :: "File \<Rightarrow> string" where
  "File_name f = name' f"

definition File_data :: "File \<Rightarrow> string" where
  "File_data f = (case data' f of Some s \<Rightarrow> s | None \<Rightarrow> [])"

text \<open>The size of a payload is bounded by the memory that holds it, so \<^verbatim>\<open>size_t\<close>
  never wraps here and is a \<open>nat\<close>; the same holds for the counts below.\<close>

definition File_size :: "File \<Rightarrow> nat" where
  "File_size f = (case data' f of Some s \<Rightarrow> length s | None \<Rightarrow> 0)"

definition File_empty :: "File \<Rightarrow> bool" where
  "File_empty f = (File_size f = 0)"

text \<open>\<^verbatim>\<open>void setName(const String& name) { name_ = name; }\<close>: no check, no throw.\<close>

definition File_setName :: "string \<Rightarrow> File \<Rightarrow> error + File" where
  "File_setName name f = Inr (f\<lparr>name' := name\<rparr>)"

text \<open>\<^verbatim>\<open>explicit File(const String& name) { setName(name); }\<close>\<close>

definition File_named :: "string \<Rightarrow> error + File" where
  "File_named name = File_setName name File_default"

definition releaseData :: "File \<Rightarrow> File" where
  "releaseData f = (if data' f \<noteq> None then f\<lparr>data' := None\<rparr> else f)"

text \<open>The copy constructor: the new file; the source is unchanged.\<close>

definition File_copy :: "File \<Rightarrow> File" where
  "File_copy other =
     (let this = File_default\<lparr>name' := name' other\<rparr>
      in if data' other \<noteq> None then this\<lparr>data' := data' other\<rparr> else this)"

text \<open>The move constructor: the new file and what is left of the source (its name
  stays, its payload pointer is null).\<close>

definition File_move :: "File \<Rightarrow> File \<times> File" where
  "File_move other =
     (let this = File_default\<lparr>name' := name' other\<rparr>;
          this = this\<lparr>data' := data' other\<rparr>;
          other = other\<lparr>data' := None\<rparr>
      in (this, other))"

text \<open>
  \<^verbatim>\<open>File& operator=(const File& other)\<close>, for \<open>this\<close> and \<open>other\<close> two different
  objects. \<^verbatim>\<open>File\<close> declares no move assignment, so \<^verbatim>\<open>x = std::move(y)\<close> runs
  this operator too and \<open>y\<close> keeps its payload.
\<close>

definition File_assign :: "File \<Rightarrow> File \<Rightarrow> File" where
  "File_assign this other =
     (let this = this\<lparr>name' := name' other\<rparr>;
          this = releaseData this
      in if data' other \<noteq> None then this\<lparr>data' := data' other\<rparr> else this)"

text \<open>\<^verbatim>\<open>File& operator=(const String& data)\<close>\<close>

definition File_assign_data :: "File \<Rightarrow> string \<Rightarrow> File" where
  "File_assign_data this d = (releaseData this)\<lparr>data' := Some d\<rparr>"

text \<open>\<^verbatim>\<open>File& operator<<(const String& data)\<close>\<close>

definition File_append :: "File \<Rightarrow> string \<Rightarrow> File" where
  "File_append this d =
     (let this = (if data' this = None then this\<lparr>data' := Some []\<rparr> else this)
      in this\<lparr>data' := Some (File_data this @ d)\<rparr>)"

subsection \<open>Objects at addresses\<close>

text \<open>
  Where the two arguments of an assignment may be the same object, the objects live in a
  store and the operator reads \<open>other\<close> from the store after each write to \<open>this\<close>,
  as the C++ does through its two references.
\<close>

type_synonym addr = nat

definition File_assign_at :: "addr \<Rightarrow> addr \<Rightarrow> (addr \<Rightarrow> File) \<Rightarrow> (addr \<Rightarrow> File)" where
  "File_assign_at this other s =
     (let s = s(this := (s this)\<lparr>name' := name' (s other)\<rparr>);
          s = s(this := releaseData (s this))
      in if data' (s other) \<noteq> None then s(this := (s this)\<lparr>data' := data' (s other)\<rparr>) else s)"

section \<open>Dir\<close>

text \<open>
  \<^verbatim>\<open>Vec<File>* subFiles_\<close> and \<^verbatim>\<open>Vec<Dir>* subDirs_\<close> are owning pointers,
  null until the first insertion: \<open>None\<close> is \<^verbatim>\<open>nullptr\<close>.
\<close>

datatype Dir = Dir (dir_name': string) (subFiles': "File list option") (subDirs': "Dir list option")

definition Dir_default :: Dir where
  "Dir_default = Dir [] None None"

definition Dir_name :: "Dir \<Rightarrow> string" where
  "Dir_name d = dir_name' d"

definition Dir_setName :: "string \<Rightarrow> Dir \<Rightarrow> error + Dir" where
  "Dir_setName name d =
     (if \<not> isValidFilename name then Inl (InvalidFileName name)
      else Inr (Dir name (subFiles' d) (subDirs' d)))"

text \<open>\<^verbatim>\<open>explicit Dir(const String& name) { setName(name); }\<close>\<close>

definition Dir_named :: "string \<Rightarrow> error + Dir" where
  "Dir_named name = Dir_setName name Dir_default"

fun Dir_size :: "Dir \<Rightarrow> nat" where
  "Dir_size (Dir n fs ds) =
     (let size = 0;
          size = (case fs of None \<Rightarrow> size
                  | Some l \<Rightarrow> fold (\<lambda>var size. size + File_size var) l size);
          size = (case ds of None \<Rightarrow> size
                  | Some l \<Rightarrow> fold (\<lambda>var size. size + Dir_size var) l size)
      in size)"

fun fileCount :: "Dir \<Rightarrow> bool \<Rightarrow> nat" where
  "fileCount (Dir n fs ds) isRecursive =
     (let cnt = 0;
          cnt = (case fs of None \<Rightarrow> cnt | Some l \<Rightarrow> cnt + length l)
      in case ds of
           None \<Rightarrow> cnt
         | Some l \<Rightarrow> if isRecursive then fold (\<lambda>var cnt. cnt + fileCount var True) l cnt
                     else cnt)"

fun dirCount :: "Dir \<Rightarrow> bool \<Rightarrow> nat" where
  "dirCount (Dir n fs ds) isRecursive =
     (let cnt = 0;
          cnt = (case ds of None \<Rightarrow> cnt | Some l \<Rightarrow> cnt + length l)
      in case ds of
           None \<Rightarrow> cnt
         | Some l \<Rightarrow> if isRecursive then fold (\<lambda>var cnt. cnt + dirCount var True) l cnt
                     else cnt)"

definition count :: "Dir \<Rightarrow> bool \<Rightarrow> nat" where
  "count d isRecursive = fileCount d isRecursive + dirCount d isRecursive"

definition Dir_empty :: "Dir \<Rightarrow> bool" where
  "Dir_empty d = (Dir_size d = 0)"


subsection \<open>Lookup\<close>

text \<open>The linear scan of \<^verbatim>\<open>hasFile_\<close> and \<^verbatim>\<open>hasDir_\<close>: the first index whose
  element satisfies \<open>P\<close>. \<open>None\<close> is \<^verbatim>\<open>NOF_ = size_t(-1)\<close>, which no index of a
  vector reaches.\<close>

fun first_index :: "('a \<Rightarrow> bool) \<Rightarrow> 'a list \<Rightarrow> nat option" where
  "first_index P [] = None"
| "first_index P (x # xs) = (if P x then Some 0 else map_option Suc (first_index P xs))"

definition hasFile' :: "Dir \<Rightarrow> string \<Rightarrow> nat option" where
  "hasFile' d name =
     (case subFiles' d of
        Some l \<Rightarrow> first_index (\<lambda>f. File_name f = name) l
      | None \<Rightarrow> None)"

definition hasDir' :: "Dir \<Rightarrow> string \<Rightarrow> nat option" where
  "hasDir' d name =
     (case subDirs' d of
        Some l \<Rightarrow> first_index (\<lambda>x. Dir_name x = name) l
      | None \<Rightarrow> None)"

fun hasFile :: "Dir \<Rightarrow> string \<Rightarrow> bool \<Rightarrow> bool" where
  "hasFile (Dir n fs ds) name isRecursive =
     (if hasFile' (Dir n fs ds) name \<noteq> None then True
      else case ds of
             None \<Rightarrow> False
           | Some l \<Rightarrow> if isRecursive then list_ex (\<lambda>var. hasFile var name True) l else False)"

fun hasDir :: "Dir \<Rightarrow> string \<Rightarrow> bool \<Rightarrow> bool" where
  "hasDir (Dir n fs ds) name isRecursive =
     (if hasDir' (Dir n fs ds) name \<noteq> None then True
      else case ds of
             None \<Rightarrow> False
           | Some l \<Rightarrow> if isRecursive then list_ex (\<lambda>var. hasDir var name True) l else False)"

text \<open>\<^verbatim>\<open>files()\<close> and \<^verbatim>\<open>dirs()\<close> return \<^verbatim>\<open>*subFiles_\<close> and
  \<^verbatim>\<open>*subDirs_\<close> with no null check.\<close>

definition files :: "Dir \<Rightarrow> error + File list" where
  "files d = (case subFiles' d of None \<Rightarrow> Inl NullDereference | Some l \<Rightarrow> Inr l)"

definition dirs :: "Dir \<Rightarrow> error + Dir list" where
  "dirs d = (case subDirs' d of None \<Rightarrow> Inl NullDereference | Some l \<Rightarrow> Inr l)"

subsection \<open>Copying and moving\<close>

text \<open>The copy constructor copies both vectors, element by element.\<close>

fun Dir_copy :: "Dir \<Rightarrow> Dir" where
  "Dir_copy (Dir n fs ds) =
     Dir n (case fs of None \<Rightarrow> None | Some l \<Rightarrow> Some (map File_copy l))
           (case ds of None \<Rightarrow> None | Some l \<Rightarrow> Some (map Dir_copy l))"

text \<open>The move constructor: the new directory and what is left of the source.\<close>

definition Dir_move :: "Dir \<Rightarrow> Dir \<times> Dir" where
  "Dir_move other =
     (Dir (dir_name' other) (subFiles' other) (subDirs' other),
      Dir (dir_name' other) None None)"

definition clearFiles :: "Dir \<Rightarrow> Dir" where
  "clearFiles d = (if subFiles' d \<noteq> None then Dir (dir_name' d) None (subDirs' d) else d)"

definition clearDirs :: "Dir \<Rightarrow> Dir" where
  "clearDirs d = (if subDirs' d \<noteq> None then Dir (dir_name' d) (subFiles' d) None else d)"

definition clear :: "Dir \<Rightarrow> Dir" where
  "clear d = clearDirs (clearFiles d)"

text \<open>
  \<^verbatim>\<open>Dir& operator=(const Dir& other)\<close>, for two different objects. \<^verbatim>\<open>Dir\<close>
  declares no move assignment either.
\<close>

definition Dir_assign :: "Dir \<Rightarrow> Dir \<Rightarrow> Dir" where
  "Dir_assign this other =
     (let this = Dir (dir_name' other) (subFiles' this) (subDirs' this);
          this = clear this;
          this = (case subFiles' other of
                    Some l \<Rightarrow> Dir (dir_name' this) (Some (map File_copy l)) (subDirs' this)
                  | None \<Rightarrow> this);
          this = (case subDirs' other of
                    Some l \<Rightarrow> Dir (dir_name' this) (subFiles' this) (Some (map Dir_copy l))
                  | None \<Rightarrow> this)
      in this)"

text \<open>The same operator on a store, where \<open>this\<close> and \<open>other\<close> may be one object.\<close>

definition Dir_assign_at :: "addr \<Rightarrow> addr \<Rightarrow> (addr \<Rightarrow> Dir) \<Rightarrow> (addr \<Rightarrow> Dir)" where
  "Dir_assign_at this other s =
     (let s = s(this := Dir (dir_name' (s other)) (subFiles' (s this)) (subDirs' (s this)));
          s = s(this := clear (s this));
          s = (case subFiles' (s other) of
                 Some l \<Rightarrow> s(this := Dir (dir_name' (s this)) (Some (map File_copy l)) (subDirs' (s this)))
               | None \<Rightarrow> s);
          s = (case subDirs' (s other) of
                 Some l \<Rightarrow> s(this := Dir (dir_name' (s this)) (subFiles' (s this)) (Some (map Dir_copy l)))
               | None \<Rightarrow> s)
      in s)"

subsection \<open>Insertion\<close>

text \<open>
  \<^verbatim>\<open>void add(File& file, bool isOverwrite)\<close> changes the directory and, through the
  reference, the caller's node; both are returned. The caller's node is an object of its
  own, not a child of the directory. In the overwrite branch
  \<^verbatim>\<open>(*subFiles_)[pos] = std::move(file)\<close> is the copy assignment.
\<close>

definition add_File :: "Dir \<Rightarrow> File \<Rightarrow> bool \<Rightarrow> Dir \<times> File" where
  "add_File d file isOverwrite =
     (let d = (if subFiles' d = None then Dir (dir_name' d) (Some []) (subDirs' d) else d);
          l = (case subFiles' d of Some l \<Rightarrow> l | None \<Rightarrow> [])
      in case hasFile' d (File_name file) of
           Some pos \<Rightarrow>
             if isOverwrite
             then (Dir (dir_name' d) (Some (l[pos := File_assign (l ! pos) file])) (subDirs' d), file)
             else (d, file)
         | None \<Rightarrow>
             (let (new, file) = File_move file
              in (Dir (dir_name' d) (Some (l @ [new])) (subDirs' d), file)))"

definition add_Dir :: "Dir \<Rightarrow> Dir \<Rightarrow> bool \<Rightarrow> Dir \<times> Dir" where
  "add_Dir d dir isOverwrite =
     (let d = (if subDirs' d = None then Dir (dir_name' d) (subFiles' d) (Some []) else d);
          l = (case subDirs' d of Some l \<Rightarrow> l | None \<Rightarrow> [])
      in case hasDir' d (Dir_name dir) of
           Some pos \<Rightarrow>
             if isOverwrite
             then (Dir (dir_name' d) (subFiles' d) (Some (l[pos := Dir_assign (l ! pos) dir])), dir)
             else (d, dir)
         | None \<Rightarrow>
             (let (new, dir) = Dir_move dir
              in (Dir (dir_name' d) (subFiles' d) (Some (l @ [new])), dir)))"

text \<open>
  \<^verbatim>\<open>File& file(const String& name)\<close> and \<^verbatim>\<open>Dir& dir(const String& name)\<close>
  return a reference to an element of the vector: here the directory afterwards and the
  index of that element. \<^verbatim>\<open>back()\<close> is the last index.
\<close>

definition vec_back :: "'a list option \<Rightarrow> error + nat" where
  "vec_back v = (case v of None \<Rightarrow> Inl NullDereference
             | Some l \<Rightarrow> if l = [] then Inl NullDereference else Inr (length l - 1))"

definition Dir_file :: "Dir \<Rightarrow> string \<Rightarrow> error + (Dir \<times> nat)" where
  "Dir_file d name =
     (case hasFile' d name of
        None \<Rightarrow>
          (case File_named name of
             Inl e \<Rightarrow> Inl e
           | Inr f \<Rightarrow>
               (let d = fst (add_File d f False)
                in case vec_back (subFiles' d) of Inl e \<Rightarrow> Inl e | Inr i \<Rightarrow> Inr (d, i)))
      | Some pos \<Rightarrow> Inr (d, pos))"

definition Dir_dir :: "Dir \<Rightarrow> string \<Rightarrow> error + (Dir \<times> nat)" where
  "Dir_dir d name =
     (case hasDir' d name of
        None \<Rightarrow>
          (case Dir_named name of
             Inl e \<Rightarrow> Inl e
           | Inr x \<Rightarrow>
               (let d = fst (add_Dir d x False)
                in case vec_back (subDirs' d) of Inl e \<Rightarrow> Inl e | Inr i \<Rightarrow> Inr (d, i)))
      | Some pos \<Rightarrow> Inr (d, pos))"

text \<open>\<^verbatim>\<open>erase(begin() + pos)\<close>\<close>

definition erase :: "'a list \<Rightarrow> nat \<Rightarrow> 'a list" where
  "erase l pos = take pos l @ drop (Suc pos) l"

definition removeFile :: "Dir \<Rightarrow> string \<Rightarrow> Dir" where
  "removeFile d name =
     (case hasFile' d name of
        None \<Rightarrow> d
      | Some pos \<Rightarrow>
          Dir (dir_name' d) (case subFiles' d of Some l \<Rightarrow> Some (erase l pos) | None \<Rightarrow> None)
              (subDirs' d))"

definition removeDir :: "Dir \<Rightarrow> string \<Rightarrow> Dir" where
  "removeDir d name =
     (case hasDir' d name of
        None \<Rightarrow> d
      | Some pos \<Rightarrow>
          Dir (dir_name' d) (subFiles' d)
              (case subDirs' d of Some l \<Rightarrow> Some (erase l pos) | None \<Rightarrow> None))"

fun releaseAllFilesData :: "Dir \<Rightarrow> Dir" where
  "releaseAllFilesData (Dir n fs ds) =
     Dir n (case fs of Some l \<Rightarrow> Some (map releaseData l) | None \<Rightarrow> None)
           (case ds of Some l \<Rightarrow> Some (map releaseAllFilesData l) | None \<Rightarrow> None)"

section \<open>Views of a tree used to state its properties\<close>

text \<open>The child collections as plain lists (an unallocated collection has no element),
  every directory below a directory, and the tree with the payloads left out.\<close>

definition child_files :: "Dir \<Rightarrow> File list" where
  "child_files d = (case subFiles' d of None \<Rightarrow> [] | Some l \<Rightarrow> l)"

definition child_dirs :: "Dir \<Rightarrow> Dir list" where
  "child_dirs d = (case subDirs' d of None \<Rightarrow> [] | Some l \<Rightarrow> l)"

fun descendants :: "Dir \<Rightarrow> Dir list" where
  "descendants (Dir n fs ds) =
     (case ds of None \<Rightarrow> [] | Some l \<Rightarrow> concat (map (\<lambda>c. c # descendants c) l))"

datatype tree_names = Names string "string list option" "tree_names list option"

fun names_of :: "Dir \<Rightarrow> tree_names" where
  "names_of (Dir n fs ds) =
     Names n (map_option (map File_name) fs) (map_option (map names_of) ds)"


section \<open>The disk\<close>

text \<open>
  The library reaches the disk through \<^verbatim>\<open>std::filesystem\<close> and the file streams.
  They are modelled for Linux: a file system without symbolic links that compares names
  byte by byte, on which every operation is permitted and which has room for what is
  written, with the root directory as the working directory, so that a relative and an
  absolute path with the same components name the same entry. A disk is the list of its
  entries, each under the list of names that leads to it from the root; the root itself is
  always a directory and has no entry. The order of the list is the order in which a
  directory iterator yields the entries. A new entry goes to the end of the list; the
  theorems that compare a tree read from disk hold for every order of the entries.
\<close>

datatype entry = RegularFile string | Directory

type_synonym disk = "(string list \<times> entry) list"

definition PREFERRED_PATH_SEPARATOR :: char where
  "PREFERRED_PATH_SEPARATOR = CHR ''/''"

subsection \<open>Paths\<close>

text \<open>
  The system calls take a path as a C string, which ends at the first zero byte, may have
  at most \<open>PATH_MAX\<close> bytes with the final zero, and may have no name of more than
  \<open>NAME_MAX\<close> bytes.
\<close>

definition NAME_MAX :: nat where
  "NAME_MAX = 255"

definition PATH_MAX :: nat where
  "PATH_MAX = 4096"

definition c_str :: "string \<Rightarrow> string" where
  "c_str s = takeWhile (\<lambda>c. c \<noteq> CHR 0x00) s"

text \<open>The parts of a path between its separators; an empty path has one empty part.\<close>

fun split_path :: "string \<Rightarrow> string list" where
  "split_path [] = [[]]"
| "split_path (c # s) =
     (if c = CHR ''/'' then [] # split_path s
      else case split_path s of [] \<Rightarrow> [[c]] | x # xs \<Rightarrow> (c # x) # xs)"

definition is_dir :: "disk \<Rightarrow> string list \<Rightarrow> bool" where
  "is_dir D k = (k = [] \<or> map_of D k = Some Directory)"

text \<open>
  Path resolution, part by part from the directory \<open>cur\<close>: an empty part and \<open>.\<close>
  stay, \<open>..\<close> goes up, a name goes down, and each step is taken from a directory. The
  place reached need not exist. \<open>NotFound\<close> stands for \<^verbatim>\<open>ENOENT\<close> and
  \<^verbatim>\<open>ENOTDIR\<close>, \<open>NameTooLong\<close> for \<^verbatim>\<open>ENAMETOOLONG\<close>.
\<close>

datatype lookup = Reached "string list" | NotFound | NameTooLong

fun resolve :: "disk \<Rightarrow> string list \<Rightarrow> string list \<Rightarrow> lookup" where
  "resolve D cur [] = Reached cur"
| "resolve D cur (c # cs) =
     (if \<not> is_dir D cur then NotFound
      else if c = [] \<or> c = ''.'' then resolve D cur cs
      else if c = ''..'' then resolve D (butlast cur) cs
      else if NAME_MAX < length c then NameTooLong
      else resolve D (cur @ [c]) cs)"

definition locate :: "disk \<Rightarrow> string \<Rightarrow> lookup" where
  "locate D p =
     (let s = c_str p
      in if s = [] then NotFound
         else if PATH_MAX \<le> length s then NameTooLong
         else resolve D [] (split_path s))"

text \<open>\<^verbatim>\<open>fs::status\<close>: what is at a path, if anything. It throws when the path is
  too long.\<close>

definition status :: "disk \<Rightarrow> string \<Rightarrow> error + entry option" where
  "status D p =
     (case locate D p of
        NameTooLong \<Rightarrow> Inl (FilesystemError p)
      | NotFound \<Rightarrow> Inr None
      | Reached k \<Rightarrow> Inr (if k = [] then Some Directory else map_of D k))"

definition isFile :: "disk \<Rightarrow> string \<Rightarrow> error + bool" where
  "isFile D path =
     (case status D path of
        Inl e \<Rightarrow> Inl e
      | Inr st \<Rightarrow> Inr (case st of Some (RegularFile s) \<Rightarrow> True | _ \<Rightarrow> False))"

definition isDirectory :: "disk \<Rightarrow> string \<Rightarrow> error + bool" where
  "isDirectory D path =
     (case status D path of
        Inl e \<Rightarrow> Inl e
      | Inr st \<Rightarrow> Inr (case st of Some Directory \<Rightarrow> True | _ \<Rightarrow> False))"

text \<open>\<^verbatim>\<open>fs::path(path).filename().string()\<close>: what follows the last separator. This
  is an operation on the string, zero bytes included.\<close>

definition filenameEx :: "string \<Rightarrow> string" where
  "filenameEx path = last (split_path path)"

text \<open>The names a directory can hold.\<close>

definition is_component :: "string \<Rightarrow> bool" where
  "is_component n =
     (n \<noteq> [] \<and> n \<noteq> ''.'' \<and> n \<noteq> ''..'' \<and> CHR ''/'' \<notin> set n \<and> CHR 0x00 \<notin> set n
      \<and> length n \<le> NAME_MAX)"

text \<open>\<^verbatim>\<open>fs::directory_iterator\<close>: the entries directly in the directory at \<open>k\<close>, by
  name, and the path of an entry, \<^verbatim>\<open>path / name\<close>, which keeps the path as it was
  given.\<close>

definition dir_entries :: "disk \<Rightarrow> string list \<Rightarrow> (string \<times> entry) list" where
  "dir_entries D k =
     map (\<lambda>(key, e). (last key, e))
       (filter (\<lambda>(key, e). key \<noteq> [] \<and> butlast key = k \<and> is_component (last key)) D)"

definition entry_path :: "string \<Rightarrow> string \<Rightarrow> string" where
  "entry_path path n =
     (if path = [] then n
      else if last path = CHR ''/'' then path @ n
      else path @ [CHR ''/''] @ n)"

subsection \<open>Creating and writing\<close>

text \<open>
  \<^verbatim>\<open>fs::create_directory\<close> is \<^verbatim>\<open>mkdir\<close>, which takes no notice of separators
  at the end of the path: false when the directory is there already, an error when the
  parent is not a directory, when something that is not a directory has the name, or
  when the path is too long.
\<close>

definition strip_slashes :: "string list \<Rightarrow> string list" where
  "strip_slashes cs = rev (dropWhile (\<lambda>c. c = []) (rev cs))"

definition locate_mkdir :: "disk \<Rightarrow> string \<Rightarrow> lookup" where
  "locate_mkdir D p =
     (let s = c_str p
      in if s = [] then NotFound
         else if PATH_MAX \<le> length s then NameTooLong
         else resolve D [] (strip_slashes (split_path s)))"

definition createDirectory :: "string \<Rightarrow> disk \<Rightarrow> error + (bool \<times> disk)" where
  "createDirectory path D =
     (case locate_mkdir D path of
        Reached k \<Rightarrow>
          if is_dir D k then Inr (False, D)
          else (case map_of D k of
                  Some e \<Rightarrow> Inl (FilesystemError path)
                | None \<Rightarrow> if is_dir D (butlast k) then Inr (True, D @ [(k, Directory)])
                          else Inl (FilesystemError path))
      | NotFound \<Rightarrow> Inl (FilesystemError path)
      | NameTooLong \<Rightarrow> Inl (FilesystemError path))"

text \<open>
  The open modes of an output file stream that the library is used with: the default
  \<^verbatim>\<open>std::ios_base::binary\<close>, which empties an existing file, and
  \<^verbatim>\<open>std::ios_base::app\<close>, which keeps what it holds and writes after it.
\<close>

datatype openmode = Binary | App

definition set_content :: "string list \<Rightarrow> string \<Rightarrow> disk \<Rightarrow> disk" where
  "set_content k s D = map (\<lambda>(key, e). if key = k then (key, RegularFile s) else (key, e)) D"

text \<open>\<^verbatim>\<open>std::ofstream ofs(_path.data(), openmode)\<close>: \<open>None\<close> when \<^verbatim>\<open>is_open()\<close> is
  false, else the place of the open file and the disk with the file in it.\<close>

definition ofstream_open :: "string \<Rightarrow> openmode \<Rightarrow> disk \<Rightarrow> (string list \<times> disk) option" where
  "ofstream_open path mode D =
     (case locate D path of
        Reached k \<Rightarrow>
          if is_dir D k then None
          else (case map_of D k of
                  Some (RegularFile old) \<Rightarrow>
                    Some (k, case mode of Binary \<Rightarrow> set_content k [] D | App \<Rightarrow> D)
                | Some Directory \<Rightarrow> None
                | None \<Rightarrow> if is_dir D (butlast k) then Some (k, D @ [(k, RegularFile [])])
                          else None)
      | NotFound \<Rightarrow> None
      | NameTooLong \<Rightarrow> None)"

text \<open>\<^verbatim>\<open>os << s\<close> on the open file at \<open>k\<close>.\<close>

definition ofstream_put :: "string list \<Rightarrow> string \<Rightarrow> disk \<Rightarrow> disk" where
  "ofstream_put k s D =
     (case map_of D k of
        Some (RegularFile old) \<Rightarrow> set_content k (old @ s) D
      | _ \<Rightarrow> D)"

text \<open>\<^verbatim>\<open>void write(OStream& os) const\<close>\<close>

definition File_write_os :: "File \<Rightarrow> string list \<Rightarrow> disk \<Rightarrow> disk" where
  "File_write_os f os D = (case data' f of Some s \<Rightarrow> ofstream_put os s D | None \<Rightarrow> D)"

text \<open>\<^verbatim>\<open>void write(const String& path, bool isOverwrite, openmode) const\<close>. In
  \<^verbatim>\<open>!isOverwrite && isFile(_path)\<close> the disk is asked only when \<open>isOverwrite\<close> is
  false.\<close>

definition File_write :: "File \<Rightarrow> string \<Rightarrow> bool \<Rightarrow> openmode \<Rightarrow> disk \<Rightarrow> error + disk" where
  "File_write f path isOverwrite mode D =
     (let path' = path @ [PREFERRED_PATH_SEPARATOR] @ name' f
      in case (if \<not> isOverwrite then isFile D path' else Inr False) of
           Inl e \<Rightarrow> Inl e
         | Inr skip \<Rightarrow>
             if skip then Inr D
             else (case ofstream_open path' mode D of
                     None \<Rightarrow> Inl (FailedToOpen path')
                   | Some (ofs, D) \<Rightarrow> Inr (File_write_os f ofs D)))"

text \<open>A loop whose body may throw: the first error ends it.\<close>

fun foldE :: "('a \<Rightarrow> 's \<Rightarrow> error + 's) \<Rightarrow> 'a list \<Rightarrow> 's \<Rightarrow> error + 's" where
  "foldE f [] s = Inr s"
| "foldE f (x # xs) s = (case f x s of Inl e \<Rightarrow> Inl e | Inr s' \<Rightarrow> foldE f xs s')"

lemma foldE_cong [fundef_cong]:
  "xs = ys \<Longrightarrow> s = t \<Longrightarrow> (\<And>x a. x \<in> set ys \<Longrightarrow> f x a = g x a) \<Longrightarrow> foldE f xs s = foldE g ys t"
  by (induction ys arbitrary: xs s t) (auto split: sum.splits)

text \<open>\<^verbatim>\<open>void Dir::write(const String& path, bool isOverwrite, openmode) const\<close>. The
  child directories are written with the default open mode.\<close>

fun Dir_write :: "Dir \<Rightarrow> string \<Rightarrow> bool \<Rightarrow> openmode \<Rightarrow> disk \<Rightarrow> error + disk" where
  "Dir_write (Dir n fs ds) path isOverwrite mode D =
     (let root = path @ [PREFERRED_PATH_SEPARATOR] @ n
      in case createDirectory root D of
           Inl e \<Rightarrow> Inl e
         | Inr (created, D) \<Rightarrow>
             (case (case fs of
                      Some l \<Rightarrow> foldE (\<lambda>var D. File_write var root isOverwrite mode D) l D
                    | None \<Rightarrow> Inr D) of
                Inl e \<Rightarrow> Inl e
              | Inr D \<Rightarrow>
                  (case ds of
                     Some l \<Rightarrow> foldE (\<lambda>var D. Dir_write var root isOverwrite Binary D) l D
                   | None \<Rightarrow> Inr D)))"

subsection \<open>Reading\<close>

text \<open>
  \<^verbatim>\<open>IFStream ifs(filename, binary)\<close>: \<open>None\<close> when \<^verbatim>\<open>is_open()\<close> is false. A
  directory can be opened, but nothing can be read from it and it has no position.
\<close>

datatype ifstream = OpenFile string | OpenDirectory

definition ifstream_open :: "disk \<Rightarrow> string \<Rightarrow> ifstream option" where
  "ifstream_open D filename =
     (case locate D filename of
        Reached k \<Rightarrow>
          if is_dir D k then Some OpenDirectory
          else (case map_of D k of
                  Some (RegularFile s) \<Rightarrow> Some (OpenFile s)
                | _ \<Rightarrow> None)
      | NotFound \<Rightarrow> None
      | NameTooLong \<Rightarrow> None)"

text \<open>
  \<^verbatim>\<open>File& operator<<(IStream& is)\<close> asks the stream for its size, reserves that much,
  reads the stream to its end, buffer by buffer, and appends what it read. Where the
  stream has no position the size is \<^verbatim>\<open>size_t(-1)\<close> and \<^verbatim>\<open>reserve\<close> throws.
\<close>

definition File_read :: "File \<Rightarrow> ifstream \<Rightarrow> error + File" where
  "File_read this is =
     (let this = (if data' this = None then this\<lparr>data' := Some []\<rparr> else this)
      in case is of
           OpenDirectory \<Rightarrow> Inl LengthError
         | OpenFile content \<Rightarrow> Inr (this\<lparr>data' := Some (File_data this @ content)\<rparr>))"

definition File_fromDiskPath :: "disk \<Rightarrow> string \<Rightarrow> error + File" where
  "File_fromDiskPath D filename =
     (case ifstream_open D filename of
        None \<Rightarrow> Inl (FailedToOpen filename)
      | Some ifs \<Rightarrow>
          (case File_named (filenameEx filename) of
             Inl e \<Rightarrow> Inl e
           | Inr file \<Rightarrow> File_read file ifs))"

text \<open>\<^verbatim>\<open>getAllFiles(path, false)\<close> and \<^verbatim>\<open>getAllDirectorys(path, false)\<close>, without
  a filter.\<close>

definition getAllFiles :: "disk \<Rightarrow> string \<Rightarrow> error + string list" where
  "getAllFiles D path =
     (case isDirectory D path of
        Inl e \<Rightarrow> Inl e
      | Inr isDir \<Rightarrow>
          if \<not> isDir then Inl (NotDirectory path)
          else (case locate D path of
                  Reached k \<Rightarrow>
                    Inr (map (\<lambda>(n, e). entry_path path n)
                          (filter (\<lambda>(n, e). e \<noteq> Directory) (dir_entries D k)))
                | NotFound \<Rightarrow> Inl (NotDirectory path)
                | NameTooLong \<Rightarrow> Inl (NotDirectory path)))"

definition getAllDirectorys :: "disk \<Rightarrow> string \<Rightarrow> error + string list" where
  "getAllDirectorys D path =
     (case isDirectory D path of
        Inl e \<Rightarrow> Inl e
      | Inr isDir \<Rightarrow>
          if \<not> isDir then Inl (NotDirectory path)
          else (case locate D path of
                  Reached k \<Rightarrow>
                    Inr (map (\<lambda>(n, e). entry_path path n)
                          (filter (\<lambda>(n, e). e = Directory) (dir_entries D k)))
                | NotFound \<Rightarrow> Inl (NotDirectory path)
                | NameTooLong \<Rightarrow> Inl (NotDirectory path)))"

text \<open>
  \<^verbatim>\<open>static Dir fromDiskPath(const String& dirpath)\<close> calls itself on the
  subdirectories that the iterator yields. The iterator appends their names to \<open>dirpath\<close>
  as given, so below a path with a zero byte the same directory is read again and again:
  the function need not return, and \<open>None\<close> is the value of a call that does not.
\<close>

fun foldEO :: "('a \<Rightarrow> 's \<Rightarrow> (error + 's) option) \<Rightarrow> 'a list \<Rightarrow> 's \<Rightarrow> (error + 's) option" where
  "foldEO f [] s = Some (Inr s)"
| "foldEO f (x # xs) s =
     Option.bind (f x s) (\<lambda>r. case r of Inl e \<Rightarrow> Some (Inl e) | Inr s' \<Rightarrow> foldEO f xs s')"

lemma foldEO_mono [partial_function_mono]:
  assumes "\<And>x s. mono_option (\<lambda>f. F f x s)"
  shows "mono_option (\<lambda>f. foldEO (F f) xs s)"
proof (induction xs arbitrary: s)
  case Nil
  show ?case by (simp add: option.const_mono)
next
  case (Cons x xs)
  show ?case
    unfolding foldEO.simps
  proof (rule bind_mono)
    show "mono_option (\<lambda>f. F f x s)" by (rule assms)
  next
    fix r :: "error + 'b"
    show "mono_option (\<lambda>f. case r of Inl e \<Rightarrow> Some (Inl e) | Inr s' \<Rightarrow> foldEO (F f) xs s')"
      by (cases r) (simp_all add: option.const_mono Cons.IH)
  qed
qed

partial_function (option) Dir_fromDiskPath :: "disk \<Rightarrow> string \<Rightarrow> (error + Dir) option" where
  "Dir_fromDiskPath D dirpath =
     (case Dir_named (filenameEx dirpath) of
        Inl e \<Rightarrow> Some (Inl e)
      | Inr root \<Rightarrow>
          (case getAllDirectorys D dirpath of
             Inl e \<Rightarrow> Some (Inl e)
           | Inr dirPaths \<Rightarrow>
               Option.bind
                 (foldEO (\<lambda>var root. Option.bind (Dir_fromDiskPath D var)
                            (\<lambda>r. case r of
                                   Inl e \<Rightarrow> Some (Inl e)
                                 | Inr x \<Rightarrow> Some (Inr (fst (add_Dir root x False)))))
                    dirPaths root)
                 (\<lambda>r. case r of
                        Inl e \<Rightarrow> Some (Inl e)
                      | Inr root \<Rightarrow>
                          (case getAllFiles D dirpath of
                             Inl e \<Rightarrow> Some (Inl e)
                           | Inr filePaths \<Rightarrow>
                               Some (foldE (\<lambda>var root. case File_fromDiskPath D var of
                                                          Inl e \<Rightarrow> Inl e
                                                        | Inr f \<Rightarrow> Inr (fst (add_File root f False)))
                                       filePaths root)))))"

declare Dir_fromDiskPath.simps [code]

section \<open>Views of a write and of a tree on disk\<close>

text \<open>
  The calls that \<open>Dir_write\<close> makes to \<open>createDirectory\<close> and \<open>File_write\<close>, as the
  specification orders them: the directory itself, then each child file in the order of
  the collection, then what each child directory gives in turn, in the order of the
  collection, with the overwrite flag handed down unchanged.
\<close>

datatype step = CreateDirectory string | WriteFile File string bool openmode

fun run_step :: "step \<Rightarrow> disk \<Rightarrow> error + disk" where
  "run_step (CreateDirectory path) D =
     (case createDirectory path D of Inl e \<Rightarrow> Inl e | Inr (created, D) \<Rightarrow> Inr D)"
| "run_step (WriteFile f path isOverwrite mode) D = File_write f path isOverwrite mode D"

fun write_steps :: "Dir \<Rightarrow> string \<Rightarrow> bool \<Rightarrow> openmode \<Rightarrow> step list" where
  "write_steps (Dir n fs ds) path isOverwrite mode =
     (let root = path @ [PREFERRED_PATH_SEPARATOR] @ n
      in CreateDirectory root
         # map (\<lambda>f. WriteFile f root isOverwrite mode) (case fs of None \<Rightarrow> [] | Some l \<Rightarrow> l)
         @ concat (map (\<lambda>c. write_steps c root isOverwrite Binary)
                    (case ds of None \<Rightarrow> [] | Some l \<Rightarrow> l)))"

fun step_overwrite :: "step \<Rightarrow> bool option" where
  "step_overwrite (CreateDirectory path) = None"
| "step_overwrite (WriteFile f path isOverwrite mode) = Some isOverwrite"

text \<open>
  A tree that a disk can hold as it is: every directory has a valid name, every name is
  one that a directory of the disk can hold, the children of a directory, files and
  directories together, have pairwise different names, and every file has a payload.
\<close>

fun storable :: "Dir \<Rightarrow> bool" where
  "storable (Dir n fs ds) =
     (isValidFilename n \<and> is_component n
      \<and> list_all (\<lambda>f. is_component (File_name f) \<and> data' f \<noteq> None)
           (case fs of None \<Rightarrow> [] | Some l \<Rightarrow> l)
      \<and> distinct (map File_name (case fs of None \<Rightarrow> [] | Some l \<Rightarrow> l)
                  @ map Dir_name (case ds of None \<Rightarrow> [] | Some l \<Rightarrow> l))
      \<and> list_all storable (case ds of None \<Rightarrow> [] | Some l \<Rightarrow> l))"

text \<open>
  No path of a tree is too long, where \<open>r\<close> is the length of the path of its root
  directory.
\<close>

fun fits :: "nat \<Rightarrow> Dir \<Rightarrow> bool" where
  "fits r (Dir n fs ds) =
     (r < PATH_MAX
      \<and> list_all (\<lambda>f. r + 1 + length (File_name f) < PATH_MAX)
           (case fs of None \<Rightarrow> [] | Some l \<Rightarrow> l)
      \<and> list_all (\<lambda>c. fits (r + 1 + length (Dir_name c)) c)
           (case ds of None \<Rightarrow> [] | Some l \<Rightarrow> l))"

text \<open>
  What a tree holds below its root, in any order: each directory, the root included, under
  the names that lead to it with no payload, and each file under the names that lead to it
  with its payload.
\<close>

fun paths_list :: "Dir \<Rightarrow> (string list \<times> string option) list" where
  "paths_list (Dir n fs ds) =
     ([], None)
     # map (\<lambda>f. ([File_name f], Some (File_data f))) (case fs of None \<Rightarrow> [] | Some l \<Rightarrow> l)
     @ concat (map (\<lambda>c. map (\<lambda>(p, x). (Dir_name c # p, x)) (paths_list c))
                (case ds of None \<Rightarrow> [] | Some l \<Rightarrow> l))"

text \<open>The entries that a tree written at \<open>k\<close> puts on the disk, in the order of the write.\<close>

fun tree_entries :: "string list \<Rightarrow> Dir \<Rightarrow> disk" where
  "tree_entries k (Dir n fs ds) =
     (k, Directory)
     # map (\<lambda>f. (k @ [File_name f], RegularFile (File_data f))) (case fs of None \<Rightarrow> [] | Some l \<Rightarrow> l)
     @ concat (map (\<lambda>c. tree_entries (k @ [Dir_name c]) c) (case ds of None \<Rightarrow> [] | Some l \<Rightarrow> l))"

text \<open>The disk holds the tree at \<open>k\<close>: its entries at and below \<open>k\<close> are those of the tree.\<close>

definition holds_at :: "disk \<Rightarrow> string list \<Rightarrow> Dir \<Rightarrow> bool" where
  "holds_at D k t = (\<forall>x. (x \<in> set D \<and> prefix k (fst x)) = (x \<in> set (tree_entries k t)))"

section \<open>Properties of the in-memory tree\<close>

subsection \<open>Auxiliary facts\<close>

lemma find_first_of_None: "find_first_of s cs = None \<longleftrightarrow> set s \<inter> set cs = {}"
  by (induction s) auto

lemma isValidFilename_iff:
  "isValidFilename n \<longleftrightarrow>
     n \<noteq> [] \<and> n \<noteq> ''.'' \<and> n \<noteq> ''..'' \<and> set n \<inter> set FILENAME_INVALID_CHARS = {}"
  by (simp add: isValidFilename_def find_first_of_None)

lemma Dir_setName_iff:
  "Dir_setName n d = (if isValidFilename n then Inr (Dir n (subFiles' d) (subDirs' d)) else Inl (InvalidFileName n))"
  by (simp add: Dir_setName_def)

lemma first_index_Some:
  "first_index P xs = Some i \<Longrightarrow> i < length xs \<and> P (xs ! i) \<and> (\<forall>j<i. \<not> P (xs ! j))"
proof (induction xs arbitrary: i)
  case Nil then show ?case by simp
next
  case (Cons x xs)
  show ?case
  proof (cases "P x")
    case True with Cons.prems show ?thesis by simp
  next
    case False
    with Cons.prems obtain k where k: "first_index P xs = Some k" "i = Suc k" by auto
    from Cons.IH[OF k(1)] False k(2) show ?thesis
      by (auto simp: nth_Cons split: nat.splits)
  qed
qed

lemma first_index_None: "first_index P xs = None \<longleftrightarrow> (\<forall>x\<in>set xs. \<not> P x)"
  by (induction xs) auto

lemma File_assign_eq: "File_assign this other = other"
  by (cases other) (simp add: File_assign_def releaseData_def Let_def)

lemma File_copy_eq: "File_copy f = f"
  by (cases f) (simp add: File_copy_def File_default_def Let_def)

lemma Dir_copy_eq: "Dir_copy d = d"
proof (induction d)
  case (Dir n fs ds)
  have "map File_copy l = l" for l by (induction l) (simp_all add: File_copy_eq)
  moreover have "ds = Some l \<Longrightarrow> map Dir_copy l = l" for l
    using Dir.IH by (auto intro!: map_idI)
  ultimately show ?case by (auto split: option.splits)
qed

lemma File_assign_at_distinct:
  "this \<noteq> other \<Longrightarrow> File_assign_at this other s = s(this := File_assign (s this) (s other))"
  by (auto simp: File_assign_at_def File_assign_def Let_def releaseData_def fun_upd_twist)

lemma Dir_assign_at_distinct:
  "this \<noteq> other \<Longrightarrow> Dir_assign_at this other s = s(this := Dir_assign (s this) (s other))"
  by (auto simp: Dir_assign_at_def Dir_assign_def Let_def clear_def clearFiles_def clearDirs_def
      split: option.splits)

lemma unallocated_files_observations:
  "Dir_size (Dir n None ds) = Dir_size (Dir n (Some []) ds)"
  "fileCount (Dir n None ds) r = fileCount (Dir n (Some []) ds) r"
  "dirCount (Dir n None ds) r = dirCount (Dir n (Some []) ds) r"
  "count (Dir n None ds) r = count (Dir n (Some []) ds) r"
  "hasFile (Dir n None ds) x r = hasFile (Dir n (Some []) ds) x r"
  "hasDir (Dir n None ds) x r = hasDir (Dir n (Some []) ds) x r"
  by (simp_all add: count_def hasFile'_def hasDir'_def Let_def)

lemma unallocated_dirs_observations:
  "Dir_size (Dir n fs None) = Dir_size (Dir n fs (Some []))"
  "fileCount (Dir n fs None) r = fileCount (Dir n fs (Some [])) r"
  "dirCount (Dir n fs None) r = dirCount (Dir n fs (Some [])) r"
  "count (Dir n fs None) r = count (Dir n fs (Some [])) r"
  "hasFile (Dir n fs None) x r = hasFile (Dir n fs (Some [])) x r"
  "hasDir (Dir n fs None) x r = hasDir (Dir n fs (Some [])) x r"
  by (simp_all add: count_def hasFile'_def hasDir'_def Let_def)

lemma fold_plus_sum: "fold (\<lambda>var (acc::nat). acc + f var) l a = a + sum_list (map f l)"
  by (induction l arbitrary: a) simp_all

lemma Dir_size_eq:
  "Dir_size d = sum_list (map File_size (child_files d)) + sum_list (map Dir_size (child_dirs d))"
  by (cases d) (simp add: child_files_def child_dirs_def fold_plus_sum Let_def split: option.splits)

lemma fileCount_False: "fileCount d False = length (child_files d)"
  by (cases d) (simp add: child_files_def Let_def split: option.splits)

lemma dirCount_False: "dirCount d False = length (child_dirs d)"
  by (cases d) (simp add: child_dirs_def Let_def split: option.splits)

lemma fileCount_True:
  "fileCount d True = length (child_files d) + sum_list (map (\<lambda>c. fileCount c True) (child_dirs d))"
  by (cases d) (simp add: child_files_def child_dirs_def fold_plus_sum Let_def split: option.splits)

lemma dirCount_True:
  "dirCount d True = length (child_dirs d) + sum_list (map (\<lambda>c. dirCount c True) (child_dirs d))"
  by (cases d) (simp add: child_dirs_def fold_plus_sum Let_def split: option.splits)

lemma descendants_eq: "descendants d = concat (map (\<lambda>c. c # descendants c) (child_dirs d))"
  by (cases d) (simp add: child_dirs_def split: option.splits)

lemma fileCount_descendants:
  "fileCount d True = sum_list (map (\<lambda>e. length (child_files e)) (d # descendants d))"
proof (induction d)
  case (Dir n fs ds)
  have "sum_list (map (\<lambda>c. fileCount c True) l)
      = sum_list (map (\<lambda>e. length (child_files e)) (concat (map (\<lambda>c. c # descendants c) l)))"
    if "ds = Some l" for l
  proof -
    have *: "c \<in> set l \<Longrightarrow> fileCount c True = sum_list (map (\<lambda>e. length (child_files e)) (c # descendants c))" for c
      using Dir.IH that by auto
    have "set k \<subseteq> set l \<Longrightarrow> sum_list (map (\<lambda>c. fileCount c True) k)
      = sum_list (map (\<lambda>e. length (child_files e)) (concat (map (\<lambda>c. c # descendants c) k)))" for k
      by (induction k) (simp_all add: *)
    then show ?thesis by simp
  qed
  then show ?case
    by (subst fileCount_True) (simp add: child_dirs_def child_files_def split: option.splits)
qed

lemma dirCount_descendants: "dirCount d True = length (descendants d)"
proof (induction d)
  case (Dir n fs ds)
  have "length l + sum_list (map (\<lambda>c. dirCount c True) l)
      = length (concat (map (\<lambda>c. c # descendants c) l))"
    if "ds = Some l" for l
  proof -
    have *: "c \<in> set l \<Longrightarrow> dirCount c True = length (descendants c)" for c
      using Dir.IH that by auto
    have "set k \<subseteq> set l \<Longrightarrow> length k + sum_list (map (\<lambda>c. dirCount c True) k)
      = length (concat (map (\<lambda>c. c # descendants c) k))" for k
      by (induction k) (simp_all add: *)
    then show ?thesis by simp
  qed
  then show ?case
    by (subst dirCount_True) (simp add: child_dirs_def split: option.splits)
qed

lemma descendants_children_sum:
  "sum_list (map (\<lambda>e. length (child_dirs e)) (d # descendants d)) = length (descendants d)"
proof (induction d)
  case (Dir n fs ds)
  have "sum_list (map (\<lambda>e. length (child_dirs e)) (concat (map (\<lambda>c. c # descendants c) l))) + length l
      = length (concat (map (\<lambda>c. c # descendants c) l))"
    if "ds = Some l" for l
  proof -
    have *: "c \<in> set l \<Longrightarrow> sum_list (map (\<lambda>e. length (child_dirs e)) (c # descendants c)) = length (descendants c)" for c
      using Dir.IH that by auto
    have "set k \<subseteq> set l \<Longrightarrow> sum_list (map (\<lambda>e. length (child_dirs e)) (concat (map (\<lambda>c. c # descendants c) k))) + length k
      = length (concat (map (\<lambda>c. c # descendants c) k))" for k
    proof (induction k)
      case Nil then show ?case by simp
    next
      case (Cons c k)
      then have "c \<in> set l" "set k \<subseteq> set l" by auto
      with Cons.IH *[of c] show ?case by simp
    qed
    then show ?thesis by simp
  qed
  then show ?case
    by (auto simp: child_dirs_def split: option.splits)
qed

lemma length_filter_distinct_one:
  "distinct (map g xs) \<Longrightarrow> i < length xs \<Longrightarrow> length (filter (\<lambda>y. g y = g (xs ! i)) xs) = 1"
proof (induction xs arbitrary: i)
  case Nil then show ?case by simp
next
  case (Cons a xs)
  show ?case
  proof (cases i)
    case 0
    have "filter (\<lambda>y. g y = g a) xs = []"
      using Cons.prems(1) by (auto simp: filter_empty_conv image_iff)
    with 0 show ?thesis by simp
  next
    case (Suc k)
    with Cons.prems have k: "k < length xs" by simp
    then have "xs ! k \<in> set xs" by simp
    with Cons.prems(1) have "g (xs ! k) \<noteq> g a" by (metis distinct.simps(2) imageI list.simps(9) set_map)
    note k this
    
    with Cons.IH[of k] Cons.prems(1) Suc show ?thesis by simp
  qed
qed

lemma releaseData_size: "File_size (releaseData f) = 0"
  by (simp add: releaseData_def File_size_def)

lemma releaseData_name: "File_name (releaseData f) = File_name f"
  by (simp add: releaseData_def File_name_def)

lemma releaseData_idem: "releaseData (releaseData f) = releaseData f"
  by (simp add: releaseData_def)

lemma release_names: "names_of (releaseAllFilesData d) = names_of d"
proof (induction d)
  case (Dir n fs ds)
  have "ds = Some l \<Longrightarrow> map (names_of \<circ> releaseAllFilesData) l = map names_of l" for l
    using Dir.IH by auto
  then show ?case
    by (auto simp: releaseData_name comp_def split: option.splits)
qed

lemma release_idem: "releaseAllFilesData (releaseAllFilesData d) = releaseAllFilesData d"
proof (induction d)
  case (Dir n fs ds)
  have "ds = Some l \<Longrightarrow> map (releaseAllFilesData \<circ> releaseAllFilesData) l = map releaseAllFilesData l" for l
    using Dir.IH by auto
  then show ?case
    by (auto simp: releaseData_idem comp_def split: option.splits)
qed

lemma release_files_empty:
  "e \<in> set (releaseAllFilesData d # descendants (releaseAllFilesData d)) \<Longrightarrow>
   f \<in> set (child_files e) \<Longrightarrow> data' f = None"
proof (induction d arbitrary: e)
  case (Dir n fs ds)
  show ?case
  proof (cases "e = releaseAllFilesData (Dir n fs ds)")
    case True
    with Dir.prems(2) show ?thesis
      by (auto simp: child_files_def releaseData_def split: option.splits)
  next
    case False
    with Dir.prems(1) obtain l c where l: "ds = Some l" "c \<in> set l"
      "e \<in> set (releaseAllFilesData c # descendants (releaseAllFilesData c))"
      by (auto split: option.splits)
    from Dir.IH[of l c e] l Dir.prems(2) show ?thesis by auto
  qed
qed

lemma all_files_empty_size:
  "(\<And>e f. e \<in> set (d # descendants d) \<Longrightarrow> f \<in> set (child_files e) \<Longrightarrow> data' f = None) \<Longrightarrow>
   Dir_size d = 0"
proof (induction d)
  case (Dir n fs ds)
  have f0: "f \<in> set (child_files (Dir n fs ds)) \<Longrightarrow> File_size f = 0" for f
    using Dir.prems[of "Dir n fs ds" f] by (simp add: File_size_def)
  have c0: "c \<in> set (child_dirs (Dir n fs ds)) \<Longrightarrow> Dir_size c = 0" for c
  proof -
    assume c: "c \<in> set (child_dirs (Dir n fs ds))"
    then obtain l where l: "ds = Some l" "c \<in> set l"
      by (auto simp: child_dirs_def split: option.splits)
    show ?thesis
    proof (rule Dir.IH[of l c])
      show "l \<in> set_option ds" using l by simp
      show "c \<in> set l" by fact
      fix e f assume "e \<in> set (c # descendants c)" "f \<in> set (child_files e)"
      then show "data' f = None"
        using Dir.prems[of e f] l by auto
    qed
  qed
  show ?case
    by (subst Dir_size_eq) (simp add: f0 c0)
qed

lemma descendants_trans:
  "e \<in> set (descendants d) \<Longrightarrow> e' \<in> set (descendants e) \<Longrightarrow> e' \<in> set (descendants d)"
proof (induction d)
  case (Dir n fs ds)
  from Dir.prems(1) obtain l c where l: "ds = Some l" "c \<in> set l" "e = c \<or> e \<in> set (descendants c)"
    by (auto split: option.splits)
  from l(3) have "e' \<in> set (descendants c)"
  proof
    assume "e = c" with Dir.prems(2) show ?thesis by simp
  next
    assume "e \<in> set (descendants c)"
    from Dir.IH[of l c, OF _ l(2) this Dir.prems(2)] l(1) show ?thesis by simp
  qed
  with l show ?case by auto
qed

subsection \<open>Names\<close>

text \<open>
  Claim C1. \<^verbatim>\<open>File::setName\<close> is to reject the empty name, \<open>.\<close>, \<open>..\<close> and every
  name holding a reserved character, as \<^verbatim>\<open>Dir::setName\<close> does. It does not: it
  stores any string. Here the empty name is stored in a file, although
  \<open>isValidFilename\<close> rejects it and the same call on a directory fails.
\<close>

theorem File_setName_no_validation:
  "File_setName [] \<lparr>name' = ''a.txt'', data' = None\<rparr> = Inr \<lparr>name' = [], data' = None\<rparr>
   \<and> \<not> isValidFilename []
   \<and> Dir_setName [] (Dir ''a'' None None) = Inl (InvalidFileName [])"
  by (simp add: File_setName_def isValidFilename_def Dir_setName_def)

subsection \<open>Insertion\<close>

text \<open>
  Claim C3, as stated, has the caller's node emptied by every insertion. With a child of
  the same name present and no overwrite the call returns early, and the caller's file
  keeps its payload \<open>q\<close>.
\<close>

theorem add_not_consumed_counterexample:
  "add_File (Dir ''d'' (Some [\<lparr>name' = ''a'', data' = Some ''p''\<rparr>]) None)
            \<lparr>name' = ''a'', data' = Some ''q''\<rparr> False
   = (Dir ''d'' (Some [\<lparr>name' = ''a'', data' = Some ''p''\<rparr>]) None,
      \<lparr>name' = ''a'', data' = Some ''q''\<rparr>)"
  by (simp add: add_File_def hasFile'_def File_name_def)

text \<open>
  Claim C3, amended. When no child of the same kind and name is present, the directory
  afterwards is the directory before with the node appended as the last child of its
  kind, its name, its other collection and its other children of that kind unchanged and
  in place, and the caller's node is left with its name and nothing else: no payload for
  a file, no child collection for a directory. When such a child is present and
  \<open>isOverwrite\<close> is false, neither the directory nor the caller's node changes.
\<close>

theorem add_consumes_when_appended:
  "(hasFile' d (File_name f) = None \<longrightarrow>
      add_File d f ow =
        (Dir (dir_name' d) (Some (child_files d @ [f])) (subDirs' d),
         \<lparr>name' = name' f, data' = None\<rparr>))
   \<and> (hasFile' d (File_name f) \<noteq> None \<longrightarrow> add_File d f False = (d, f))
   \<and> (hasDir' d (Dir_name x) = None \<longrightarrow>
      add_Dir d x ow =
        (Dir (dir_name' d) (subFiles' d) (Some (child_dirs d @ [x])),
         Dir (dir_name' x) None None))
   \<and> (hasDir' d (Dir_name x) \<noteq> None \<longrightarrow> add_Dir d x False = (d, x))"
proof -
  have a: "add_File d f ow =
        (Dir (dir_name' d) (Some (child_files d @ [f])) (subDirs' d),
         \<lparr>name' = name' f, data' = None\<rparr>)"
    if h: "hasFile' d (File_name f) = None"
  proof -
    from h have "hasFile' (Dir (dir_name' d) (Some []) (subDirs' d)) (File_name f) = None"
      by (simp add: hasFile'_def)
    with h show ?thesis
      by (cases d; cases f)
         (auto simp: add_File_def File_move_def File_default_def child_files_def Let_def
            split: option.splits)
  qed
  have b: "add_File d f False = (d, f)" if h: "hasFile' d (File_name f) \<noteq> None"
    using h by (cases d) (auto simp: add_File_def hasFile'_def split: option.splits)
  have c: "add_Dir d x ow =
        (Dir (dir_name' d) (subFiles' d) (Some (child_dirs d @ [x])),
         Dir (dir_name' x) None None)"
    if h: "hasDir' d (Dir_name x) = None"
  proof -
    from h have "hasDir' (Dir (dir_name' d) (subFiles' d) (Some [])) (Dir_name x) = None"
      by (simp add: hasDir'_def)
    with h show ?thesis
      by (cases d; cases x)
         (auto simp: add_Dir_def Dir_move_def child_dirs_def Let_def split: option.splits)
  qed
  have e: "add_Dir d x False = (d, x)" if h: "hasDir' d (Dir_name x) \<noteq> None"
    using h by (cases d) (auto simp: add_Dir_def hasDir'_def split: option.splits)
  show ?thesis using a b c e by blast
qed

theorem add_consumes_when_appended_witness:
  "hasFile' (Dir ''d'' (Some [\<lparr>name' = ''b'', data' = Some ''r''\<rparr>]) (Some [Dir ''u'' None None]))
     (File_name \<lparr>name' = ''a'', data' = Some ''q''\<rparr>) = None
   \<and> add_File (Dir ''d'' (Some [\<lparr>name' = ''b'', data' = Some ''r''\<rparr>]) (Some [Dir ''u'' None None]))
        \<lparr>name' = ''a'', data' = Some ''q''\<rparr> True
       = (Dir ''d'' (Some [\<lparr>name' = ''b'', data' = Some ''r''\<rparr>, \<lparr>name' = ''a'', data' = Some ''q''\<rparr>])
            (Some [Dir ''u'' None None]),
          \<lparr>name' = ''a'', data' = None\<rparr>)
   \<and> hasFile' (Dir ''d'' (Some [\<lparr>name' = ''a'', data' = Some ''p''\<rparr>]) None)
        (File_name \<lparr>name' = ''a'', data' = Some ''q''\<rparr>) \<noteq> None
   \<and> add_File (Dir ''d'' (Some [\<lparr>name' = ''a'', data' = Some ''p''\<rparr>]) None)
        \<lparr>name' = ''a'', data' = Some ''q''\<rparr> False
       = (Dir ''d'' (Some [\<lparr>name' = ''a'', data' = Some ''p''\<rparr>]) None, \<lparr>name' = ''a'', data' = Some ''q''\<rparr>)
   \<and> hasDir' (Dir ''d'' (Some [\<lparr>name' = ''b'', data' = Some ''r''\<rparr>]) (Some [Dir ''u'' None None]))
        (Dir_name (Dir ''s'' (Some []) (Some [Dir ''t'' None None]))) = None
   \<and> add_Dir (Dir ''d'' (Some [\<lparr>name' = ''b'', data' = Some ''r''\<rparr>]) (Some [Dir ''u'' None None]))
        (Dir ''s'' (Some []) (Some [Dir ''t'' None None])) False
       = (Dir ''d'' (Some [\<lparr>name' = ''b'', data' = Some ''r''\<rparr>])
            (Some [Dir ''u'' None None, Dir ''s'' (Some []) (Some [Dir ''t'' None None])]),
          Dir ''s'' None None)
   \<and> hasDir' (Dir ''d'' None (Some [Dir ''s'' None None]))
        (Dir_name (Dir ''s'' (Some []) (Some [Dir ''t'' None None]))) \<noteq> None
   \<and> add_Dir (Dir ''d'' None (Some [Dir ''s'' None None])) (Dir ''s'' (Some []) (Some [Dir ''t'' None None])) False
       = (Dir ''d'' None (Some [Dir ''s'' None None]), Dir ''s'' (Some []) (Some [Dir ''t'' None None]))"
  using add_consumes_when_appended
      [of "Dir ''d'' (Some [\<lparr>name' = ''b'', data' = Some ''r''\<rparr>]) (Some [Dir ''u'' None None])"
          "\<lparr>name' = ''a'', data' = Some ''q''\<rparr>" True "Dir ''s'' (Some []) (Some [Dir ''t'' None None])"]
    add_consumes_when_appended
      [of "Dir ''d'' (Some [\<lparr>name' = ''a'', data' = Some ''p''\<rparr>]) None" "\<lparr>name' = ''a'', data' = Some ''q''\<rparr>" False
          "Dir ''s'' (Some []) (Some [Dir ''t'' None None])"]
    add_consumes_when_appended
      [of "Dir ''d'' (Some [\<lparr>name' = ''b'', data' = Some ''r''\<rparr>]) (Some [Dir ''u'' None None])"
          "\<lparr>name' = ''a'', data' = Some ''q''\<rparr>" False "Dir ''s'' (Some []) (Some [Dir ''t'' None None])"]
    add_consumes_when_appended
      [of "Dir ''d'' None (Some [Dir ''s'' None None])" "\<lparr>name' = ''a'', data' = Some ''q''\<rparr>" False
          "Dir ''s'' (Some []) (Some [Dir ''t'' None None])"]
  by (simp add: hasFile'_def hasDir'_def File_name_def Dir_name_def child_files_def child_dirs_def)

text \<open>
  Claim C5. Let the child files of \<open>d\<close> have pairwise different names and let the child
  at \<open>pos\<close> be the one named \<open>x\<close>. Inserting a file \<open>f\<close> named \<open>x\<close> without
  overwrite changes nothing. Inserting it with overwrite puts \<open>f\<close>, payload included,
  at \<open>pos\<close>. Before and after, exactly one child file is named \<open>x\<close>, and the names
  stay pairwise different.
\<close>

theorem insert_existing_file:
  assumes "subFiles' d = Some l" and "distinct (map File_name l)"
    and "hasFile' d x = Some pos" and "File_name f = x"
  shows "pos < length l \<and> File_name (l ! pos) = x
     \<and> add_File d f False = (d, f)
     \<and> fst (add_File d f True) = Dir (dir_name' d) (Some (l[pos := f])) (subDirs' d)
     \<and> hasFile' (fst (add_File d f True)) x = Some pos
     \<and> l[pos := f] ! pos = f
     \<and> File_data (l[pos := f] ! pos) = File_data f
     \<and> length (filter (\<lambda>g. File_name g = x) l) = 1
     \<and> length (filter (\<lambda>g. File_name g = x) (l[pos := f])) = 1
     \<and> distinct (map File_name (l[pos := f]))"
proof -
  from assms(1,3) have fi: "first_index (\<lambda>g. File_name g = x) l = Some pos"
    by (simp add: hasFile'_def)
  from first_index_Some[OF fi] have pos: "pos < length l" "File_name (l ! pos) = x"
    and first: "\<forall>j<pos. File_name (l ! j) \<noteq> x" by auto
  have names: "map File_name (l[pos := f]) = map File_name l"
    using pos assms(4) by (simp add: map_update list_update_same_conv)
  have noop: "add_File d f False = (d, f)"
    using assms(1,3,4) by (cases d) (simp add: add_File_def)
  have ow: "fst (add_File d f True) = Dir (dir_name' d) (Some (l[pos := f])) (subDirs' d)"
    using assms(1,3,4) by (cases d) (simp add: add_File_def File_assign_eq)
  have one: "length (filter (\<lambda>g. File_name g = x) l) = 1"
    using length_filter_distinct_one[OF assms(2) pos(1)] pos(2) by simp
  have d': "distinct (map File_name (l[pos := f]))"
    using names assms(2) by simp
  have pos': "pos < length (l[pos := f])" using pos by simp
  have one': "length (filter (\<lambda>g. File_name g = x) (l[pos := f])) = 1"
    using length_filter_distinct_one[OF d' pos'] pos assms(4) by simp
  have fi': "first_index (\<lambda>g. File_name g = x) (l[pos := f]) = Some pos"
  proof -
    have "first_index (\<lambda>g. File_name g = x) k = first_index (\<lambda>n. n = x) (map File_name k)" for k
      by (induction k) simp_all
    with names fi show ?thesis by metis
  qed
  show ?thesis
    using pos noop ow one one' d' fi' by (simp add: hasFile'_def)
qed

theorem insert_existing_file_witness:
  "subFiles' (Dir ''d'' (Some [\<lparr>name' = ''b'', data' = None\<rparr>, \<lparr>name' = ''a.txt'', data' = Some ''p''\<rparr>]) None)
     = Some [\<lparr>name' = ''b'', data' = None\<rparr>, \<lparr>name' = ''a.txt'', data' = Some ''p''\<rparr>]
   \<and> distinct (map File_name [\<lparr>name' = ''b'', data' = None\<rparr>, \<lparr>name' = ''a.txt'', data' = Some ''p''\<rparr>])
   \<and> hasFile' (Dir ''d'' (Some [\<lparr>name' = ''b'', data' = None\<rparr>, \<lparr>name' = ''a.txt'', data' = Some ''p''\<rparr>]) None) ''a.txt'' = Some 1
   \<and> File_name \<lparr>name' = ''a.txt'', data' = Some ''q''\<rparr> = ''a.txt''
   \<and> add_File (Dir ''d'' (Some [\<lparr>name' = ''b'', data' = None\<rparr>, \<lparr>name' = ''a.txt'', data' = Some ''p''\<rparr>]) None)
         \<lparr>name' = ''a.txt'', data' = Some ''q''\<rparr> False
       = (Dir ''d'' (Some [\<lparr>name' = ''b'', data' = None\<rparr>, \<lparr>name' = ''a.txt'', data' = Some ''p''\<rparr>]) None,
          \<lparr>name' = ''a.txt'', data' = Some ''q''\<rparr>)
   \<and> fst (add_File (Dir ''d'' (Some [\<lparr>name' = ''b'', data' = None\<rparr>, \<lparr>name' = ''a.txt'', data' = Some ''p''\<rparr>]) None)
         \<lparr>name' = ''a.txt'', data' = Some ''q''\<rparr> True)
       = Dir ''d'' (Some [\<lparr>name' = ''b'', data' = None\<rparr>, \<lparr>name' = ''a.txt'', data' = Some ''q''\<rparr>]) None"
proof -
  have h1: "subFiles' (Dir ''d'' (Some [\<lparr>name' = ''b'', data' = None\<rparr>, \<lparr>name' = ''a.txt'', data' = Some ''p''\<rparr>]) None)
     = Some [\<lparr>name' = ''b'', data' = None\<rparr>, \<lparr>name' = ''a.txt'', data' = Some ''p''\<rparr>]" by simp
  have h2: "distinct (map File_name [\<lparr>name' = ''b'', data' = None\<rparr>, \<lparr>name' = ''a.txt'', data' = Some ''p''\<rparr>])"
    by (simp add: File_name_def)
  have h3: "hasFile' (Dir ''d'' (Some [\<lparr>name' = ''b'', data' = None\<rparr>, \<lparr>name' = ''a.txt'', data' = Some ''p''\<rparr>]) None) ''a.txt'' = Some 1"
    by (simp add: hasFile'_def File_name_def)
  have h4: "File_name \<lparr>name' = ''a.txt'', data' = Some ''q''\<rparr> = ''a.txt''"
    by (simp add: File_name_def)
  show ?thesis
    using h1 h2 h3 h4 insert_existing_file[OF h1 h2 h3 h4] by simp
qed

text \<open>
  Claim C9, as stated, has \<^verbatim>\<open>dir(x)\<close> create a child for every name \<open>x\<close> that no
  child directory bears. The new directory is built by \<^verbatim>\<open>Dir(name)\<close>, which
  validates the name: for \<open>a/b\<close> the call throws.
\<close>

theorem dir_accessor_invalid_name_counterexample:
  "hasDir' (Dir ''d'' None None) ''a/b'' = None
   \<and> Dir_dir (Dir ''d'' None None) ''a/b'' = Inl (InvalidFileName ''a/b'')"
  by (simp add: Dir_dir_def hasDir'_def Dir_named_def Dir_setName_def isValidFilename_def
      FILENAME_INVALID_CHARS_def)

text \<open>
  Claim C9, amended. \<^verbatim>\<open>file(x)\<close> returns the existing child file named \<open>x\<close>, the
  directory unchanged; when there is none it appends an empty file named \<open>x\<close> and returns
  that one. \<^verbatim>\<open>dir(x)\<close> returns the existing child directory named \<open>x\<close>; when there
  is none and \<open>x\<close> is a valid name it appends an empty directory named \<open>x\<close> and returns
  it; when there is none and \<open>x\<close> is not a valid name it fails with the invalid-name
  error. In the two creating cases the other children are the ones before, in the same
  order.
\<close>

theorem accessor_or_create:
  "(hasFile' d x = Some pos \<longrightarrow>
      Dir_file d x = Inr (d, pos) \<and> pos < length (child_files d) \<and> File_name (child_files d ! pos) = x)
   \<and> (hasFile' d x = None \<longrightarrow>
      Dir_file d x =
        Inr (Dir (dir_name' d) (Some (child_files d @ [\<lparr>name' = x, data' = None\<rparr>])) (subDirs' d),
             length (child_files d)))
   \<and> (hasDir' d x = Some pos \<longrightarrow>
      Dir_dir d x = Inr (d, pos) \<and> pos < length (child_dirs d) \<and> Dir_name (child_dirs d ! pos) = x)
   \<and> (hasDir' d x = None \<and> isValidFilename x \<longrightarrow>
      Dir_dir d x =
        Inr (Dir (dir_name' d) (subFiles' d) (Some (child_dirs d @ [Dir x None None])),
             length (child_dirs d)))
   \<and> (hasDir' d x = None \<and> \<not> isValidFilename x \<longrightarrow> Dir_dir d x = Inl (InvalidFileName x))"
proof -
  have a: "Dir_file d x = Inr (d, pos) \<and> pos < length (child_files d) \<and> File_name (child_files d ! pos) = x"
    if h: "hasFile' d x = Some pos"
  proof -
    from h obtain l where l: "subFiles' d = Some l" "first_index (\<lambda>f. File_name f = x) l = Some pos"
      by (auto simp: hasFile'_def split: option.splits)
    from first_index_Some[OF l(2)] l(1) h show ?thesis
      by (simp add: Dir_file_def child_files_def)
  qed
  have b: "Dir_file d x =
        Inr (Dir (dir_name' d) (Some (child_files d @ [\<lparr>name' = x, data' = None\<rparr>])) (subDirs' d),
             length (child_files d))"
    if h: "hasFile' d x = None"
  proof -
    from h have h': "hasFile' (Dir (dir_name' d) (Some []) (subDirs' d)) x = None"
      by (simp add: hasFile'_def)
    from h h' show ?thesis
      by (cases d)
         (auto simp: Dir_file_def File_named_def File_setName_def File_default_def add_File_def
            File_name_def File_move_def vec_back_def child_files_def Let_def split: option.splits)
  qed
  have c: "Dir_dir d x = Inr (d, pos) \<and> pos < length (child_dirs d) \<and> Dir_name (child_dirs d ! pos) = x"
    if h: "hasDir' d x = Some pos"
  proof -
    from h obtain l where l: "subDirs' d = Some l" "first_index (\<lambda>c. Dir_name c = x) l = Some pos"
      by (auto simp: hasDir'_def split: option.splits)
    from first_index_Some[OF l(2)] l(1) h show ?thesis
      by (simp add: Dir_dir_def child_dirs_def)
  qed
  have e: "Dir_dir d x =
        Inr (Dir (dir_name' d) (subFiles' d) (Some (child_dirs d @ [Dir x None None])),
             length (child_dirs d))"
    if h: "hasDir' d x = None" and v: "isValidFilename x"
  proof -
    from h have h': "hasDir' (Dir (dir_name' d) (subFiles' d) (Some [])) x = None"
      by (simp add: hasDir'_def)
    from h h' v show ?thesis
      by (cases d)
         (auto simp: Dir_dir_def Dir_named_def Dir_setName_def Dir_default_def add_Dir_def
            Dir_name_def Dir_move_def vec_back_def child_dirs_def Let_def split: option.splits)
  qed
  have g: "Dir_dir d x = Inl (InvalidFileName x)"
    if "hasDir' d x = None" and "\<not> isValidFilename x"
    using that by (simp add: Dir_dir_def Dir_named_def Dir_setName_def)
  show ?thesis using a b c e g by blast
qed

theorem accessor_or_create_witness:
  "hasFile' (Dir ''d'' (Some [\<lparr>name' = ''a'', data' = Some ''p''\<rparr>]) None) ''a'' = Some 0
   \<and> Dir_file (Dir ''d'' (Some [\<lparr>name' = ''a'', data' = Some ''p''\<rparr>]) None) ''a''
       = Inr (Dir ''d'' (Some [\<lparr>name' = ''a'', data' = Some ''p''\<rparr>]) None, 0)
   \<and> hasFile' (Dir ''d'' None None) ''a'' = None
   \<and> Dir_file (Dir ''d'' None None) ''a'' = Inr (Dir ''d'' (Some [\<lparr>name' = ''a'', data' = None\<rparr>]) None, 0)
   \<and> hasDir' (Dir ''d'' None (Some [Dir ''s'' None None])) ''s'' = Some 0
   \<and> Dir_dir (Dir ''d'' None (Some [Dir ''s'' None None])) ''s''
       = Inr (Dir ''d'' None (Some [Dir ''s'' None None]), 0)
   \<and> hasDir' (Dir ''d'' None None) ''s'' = None \<and> isValidFilename ''s''
   \<and> Dir_dir (Dir ''d'' None None) ''s'' = Inr (Dir ''d'' None (Some [Dir ''s'' None None]), 0)
   \<and> \<not> isValidFilename ''..''
   \<and> Dir_dir (Dir ''d'' None None) ''..'' = Inl (InvalidFileName ''..'')"
  using accessor_or_create[of "Dir ''d'' (Some [\<lparr>name' = ''a'', data' = Some ''p''\<rparr>]) None" "''a''" 0]
    accessor_or_create[of "Dir ''d'' None None" "''a''" 0]
    accessor_or_create[of "Dir ''d'' None (Some [Dir ''s'' None None])" "''s''" 0]
    accessor_or_create[of "Dir ''d'' None None" "''s''" 0]
    accessor_or_create[of "Dir ''d'' None None" "''..''" 0]
  by (simp add: hasFile'_def hasDir'_def File_name_def Dir_name_def child_files_def child_dirs_def
      isValidFilename_def FILENAME_INVALID_CHARS_def)

subsection \<open>Unallocated collections\<close>

text \<open>
  Claim C4. A directory into which no file (no directory) was ever inserted is to behave
  as one whose collection is empty, under every observation. \<^verbatim>\<open>files()\<close> and
  \<^verbatim>\<open>dirs()\<close> dereference the null pointer there, where the empty collection gives the
  empty list. (The other observations agree, see \<open>unallocated_files_observations\<close>,
  \<open>unallocated_dirs_observations\<close> and, for writing, \<open>unallocated_write\<close>.)
\<close>

theorem files_dirs_unallocated:
  "files (Dir ''d'' None None) = Inl NullDereference
   \<and> dirs (Dir ''d'' None None) = Inl NullDereference
   \<and> files (Dir ''d'' (Some []) (Some [])) = Inr []
   \<and> dirs (Dir ''d'' (Some []) (Some [])) = Inr []"
  by (simp add: files_def dirs_def)

subsection \<open>Counting\<close>

text \<open>
  Claim C6. Without recursion \<open>fileCount\<close>, \<open>dirCount\<close> and \<open>count\<close> are the numbers
  of child files, of child directories, and their sum. With recursion each is the direct
  number plus the recursive numbers of the child directories, which is the sum of the
  direct numbers over the directory and all directories below it; the directory itself is
  not counted, so the recursive \<open>dirCount\<close> is the number of directories below it. A
  root with 2 files and 1 subdirectory of 3 files has \<open>count\<close> 6 with recursion and 3
  without.
\<close>

theorem counts_direct_and_recursive:
  "fileCount d False = length (child_files d)
   \<and> dirCount d False = length (child_dirs d)
   \<and> count d False = length (child_files d) + length (child_dirs d)
   \<and> fileCount d True = length (child_files d) + (\<Sum>c\<leftarrow>child_dirs d. fileCount c True)
   \<and> dirCount d True = length (child_dirs d) + (\<Sum>c\<leftarrow>child_dirs d. dirCount c True)
   \<and> count d True = count d False + (\<Sum>c\<leftarrow>child_dirs d. count c True)
   \<and> fileCount d True = (\<Sum>e\<leftarrow>d # descendants d. fileCount e False)
   \<and> dirCount d True = (\<Sum>e\<leftarrow>d # descendants d. dirCount e False)
   \<and> dirCount d True = length (descendants d)
   \<and> count d True = (\<Sum>e\<leftarrow>d # descendants d. count e False)
   \<and> count (Dir n (Some [f1, f2]) (Some [Dir m (Some [g1, g2, g3]) None])) True = 6
   \<and> count (Dir n (Some [f1, f2]) (Some [Dir m (Some [g1, g2, g3]) None])) False = 3
   \<and> count (Dir n (Some [f1, f2]) (Some [Dir m (Some [g1, g2, g3]) (Some [])])) True = 6
   \<and> count (Dir n (Some [f1, f2]) (Some [Dir m (Some [g1, g2, g3]) (Some [])])) False = 3"
proof -
  have a: "count d True = count d False + (\<Sum>c\<leftarrow>child_dirs d. count c True)"
    unfolding count_def
    by (subst fileCount_True, subst dirCount_True)
       (simp add: fileCount_False dirCount_False sum_list_addf)
  have b: "dirCount d True = (\<Sum>e\<leftarrow>d # descendants d. dirCount e False)"
    using descendants_children_sum[of d] by (simp add: dirCount_descendants dirCount_False)
  have c: "fileCount d True = (\<Sum>e\<leftarrow>d # descendants d. fileCount e False)"
    using fileCount_descendants[of d] by (simp add: fileCount_False)
  have d: "count d True = (\<Sum>e\<leftarrow>d # descendants d. count e False)"
    unfolding count_def by (subst c, subst b) (simp add: sum_list_addf)
  show ?thesis
    apply (intro conjI)
    apply (rule fileCount_False)
    apply (rule dirCount_False)
    apply (simp add: count_def fileCount_False dirCount_False)
    apply (rule fileCount_True)
    apply (rule dirCount_True)
    apply (rule a)
    apply (rule c)
    apply (rule b)
    apply (rule dirCount_descendants)
    apply (rule d)
    apply (simp_all add: count_def Let_def)
    done
qed

subsection \<open>Releasing the payloads\<close>

text \<open>
  Claim C7. \<open>releaseAllFilesData\<close> keeps the tree of names; afterwards the directory and
  every directory below it have size 0 and every file in them has no payload; running it
  a second time changes nothing.
\<close>

theorem releaseAllFilesData_properties:
  "names_of (releaseAllFilesData d) = names_of d
   \<and> Dir_size (releaseAllFilesData d) = 0
   \<and> (\<forall>e \<in> set (descendants (releaseAllFilesData d)). Dir_size e = 0)
   \<and> (\<forall>e \<in> set (releaseAllFilesData d # descendants (releaseAllFilesData d)).
        \<forall>f \<in> set (child_files e). File_size f = 0 \<and> File_data f = [])
   \<and> releaseAllFilesData (releaseAllFilesData d) = releaseAllFilesData d"
proof -
  let ?r = "releaseAllFilesData d"
  have none: "\<And>e f. e \<in> set (?r # descendants ?r) \<Longrightarrow> f \<in> set (child_files e) \<Longrightarrow> data' f = None"
    by (rule release_files_empty)
  have sz: "e \<in> set (?r # descendants ?r) \<Longrightarrow> Dir_size e = 0" for e
  proof (rule all_files_empty_size)
    fix e' f assume e: "e \<in> set (?r # descendants ?r)"
      and e': "e' \<in> set (e # descendants e)" and f: "f \<in> set (child_files e')"
    have "e' \<in> set (?r # descendants ?r)"
      using e e' descendants_trans[of e ?r e'] by auto
    then show "data' f = None" using none f by blast
  qed
  show ?thesis
    using sz none by (auto simp: release_names release_idem File_size_def File_data_def)
qed

theorem releaseAllFilesData_properties_witness:
  "names_of (releaseAllFilesData (Dir ''d'' (Some [\<lparr>name' = ''a'', data' = Some ''p''\<rparr>])
        (Some [Dir ''s'' (Some [\<lparr>name' = ''b'', data' = Some ''qq''\<rparr>]) None])))
     = Names ''d'' (Some [''a'']) (Some [Names ''s'' (Some [''b'']) None])
   \<and> Dir_size (releaseAllFilesData (Dir ''d'' (Some [\<lparr>name' = ''a'', data' = Some ''p''\<rparr>])
        (Some [Dir ''s'' (Some [\<lparr>name' = ''b'', data' = Some ''qq''\<rparr>]) None]))) = 0
   \<and> descendants (releaseAllFilesData (Dir ''d'' (Some [\<lparr>name' = ''a'', data' = Some ''p''\<rparr>])
        (Some [Dir ''s'' (Some [\<lparr>name' = ''b'', data' = Some ''qq''\<rparr>]) None])))
      = [Dir ''s'' (Some [\<lparr>name' = ''b'', data' = None\<rparr>]) None]
   \<and> Dir_size (Dir ''d'' (Some [\<lparr>name' = ''a'', data' = Some ''p''\<rparr>])
        (Some [Dir ''s'' (Some [\<lparr>name' = ''b'', data' = Some ''qq''\<rparr>]) None])) = 3"
  using releaseAllFilesData_properties[of "Dir ''d'' (Some [\<lparr>name' = ''a'', data' = Some ''p''\<rparr>])
        (Some [Dir ''s'' (Some [\<lparr>name' = ''b'', data' = Some ''qq''\<rparr>]) None])"]
  by (simp add: File_name_def releaseData_def File_size_def Let_def)

subsection \<open>Self-assignment\<close>

text \<open>
  Claim C10. Assigning a file with a payload to itself leaves it without payload:
  \<open>data()\<close> is empty and \<open>size()\<close> is 0. Assigning a directory to itself leaves it
  with neither child collection. The names stay.
\<close>

theorem self_assignment_loses_contents:
  "(data' (s a) = Some p \<longrightarrow>
      data' (File_assign_at a a s a) = None
      \<and> File_data (File_assign_at a a s a) = []
      \<and> File_size (File_assign_at a a s a) = 0
      \<and> name' (File_assign_at a a s a) = name' (s a))
   \<and> subFiles' (Dir_assign_at a a t a) = None
   \<and> subDirs' (Dir_assign_at a a t a) = None
   \<and> dir_name' (Dir_assign_at a a t a) = dir_name' (t a)"
  by (simp add: File_assign_at_def Dir_assign_at_def releaseData_def File_data_def File_size_def
      clear_def clearFiles_def clearDirs_def Let_def)

theorem self_assignment_loses_contents_witness:
  "data' ((\<lambda>_. \<lparr>name' = ''f'', data' = Some ''abc''\<rparr>) (0::nat)) = Some ''abc''
   \<and> File_data (File_assign_at 0 0 (\<lambda>_. \<lparr>name' = ''f'', data' = Some ''abc''\<rparr>) 0) = []
   \<and> File_size (File_assign_at 0 0 (\<lambda>_. \<lparr>name' = ''f'', data' = Some ''abc''\<rparr>) 0) = 0
   \<and> subFiles' (Dir_assign_at 0 0 (\<lambda>_. Dir ''d'' (Some [\<lparr>name' = ''f'', data' = Some ''abc''\<rparr>]) (Some [Dir ''e'' None None])) 0) = None
   \<and> subDirs' (Dir_assign_at 0 0 (\<lambda>_. Dir ''d'' (Some [\<lparr>name' = ''f'', data' = Some ''abc''\<rparr>]) (Some [Dir ''e'' None None])) 0) = None"
  using self_assignment_loses_contents
    [of "\<lambda>_. \<lparr>name' = ''f'', data' = Some ''abc''\<rparr>" 0 "''abc''"
        "\<lambda>_. Dir ''d'' (Some [\<lparr>name' = ''f'', data' = Some ''abc''\<rparr>]) (Some [Dir ''e'' None None])"]
  by simp

section \<open>Properties of writing and reading\<close>

subsection \<open>Paths\<close>

lemma split_path_nonempty: "split_path p \<noteq> []"
  by (induction p) (auto split: list.splits)

lemma split_path_no_sep: "CHR ''/'' \<notin> set n \<Longrightarrow> split_path n = [n]"
  by (induction n) auto

lemma split_path_sep: "split_path (p @ CHR ''/'' # q) = split_path p @ split_path q"
  by (induction p) (auto split: list.splits simp: split_path_nonempty)

lemma resolve_append:
  "resolve D cur (xs @ ys) =
     (case resolve D cur xs of Reached c \<Rightarrow> resolve D c ys | NotFound \<Rightarrow> NotFound
      | NameTooLong \<Rightarrow> NameTooLong)"
  by (induction xs arbitrary: cur) auto

lemma c_str_id: "CHR 0x00 \<notin> set p \<Longrightarrow> c_str p = p"
  by (simp add: c_str_def takeWhile_eq_all_conv) metis

lemma locate_Reached:
  "locate D p = Reached k \<Longrightarrow>
     c_str p \<noteq> [] \<and> length (c_str p) < PATH_MAX \<and> resolve D [] (split_path (c_str p)) = Reached k"
  by (auto simp: locate_def Let_def split: if_splits)

lemma locate_sep:
  assumes "locate D p = Reached k" and "is_dir D k" and "is_component n"
    and "CHR 0x00 \<notin> set p" and "length p + 1 + length n < PATH_MAX"
  shows "locate D (p @ [PREFERRED_PATH_SEPARATOR] @ n) = Reached (k @ [n])"
proof -
  from locate_Reached[OF assms(1)] assms(4)
  have r: "resolve D [] (split_path p) = Reached k" by (simp add: c_str_id)
  from assms(3) have nosep: "CHR ''/'' \<notin> set n" and nonul: "CHR 0x00 \<notin> set n"
    and len: "length n \<le> NAME_MAX" and ne: "n \<noteq> []" "n \<noteq> ''.''" "n \<noteq> ''..''"
    by (auto simp: is_component_def)
  have c: "c_str (p @ CHR ''/'' # n) = p @ CHR ''/'' # n"
    using assms(4) nonul by (intro c_str_id) auto
  have "split_path (p @ CHR ''/'' # n) = split_path p @ [n]"
    using split_path_sep[of p n] nosep by (simp add: split_path_no_sep)
  with r assms(2,5) len ne c show ?thesis
    by (simp add: locate_def PREFERRED_PATH_SEPARATOR_def resolve_append Let_def)
qed

lemma strip_slashes_snoc: "n \<noteq> [] \<Longrightarrow> strip_slashes (xs @ [n]) = xs @ [n]"
  by (simp add: strip_slashes_def)

lemma locate_mkdir_sep:
  assumes "locate D p = Reached k" and "is_dir D k" and "is_component n"
    and "CHR 0x00 \<notin> set p" and "length p + 1 + length n < PATH_MAX"
  shows "locate_mkdir D (p @ [PREFERRED_PATH_SEPARATOR] @ n) = Reached (k @ [n])"
proof -
  from assms(3) have nosep: "CHR ''/'' \<notin> set n" and ne: "n \<noteq> []" by (auto simp: is_component_def)
  have sp: "split_path (p @ CHR ''/'' # n) = split_path p @ [n]"
    using split_path_sep[of p n] nosep by (simp add: split_path_no_sep)
  have "locate_mkdir D (p @ [PREFERRED_PATH_SEPARATOR] @ n) = locate D (p @ [PREFERRED_PATH_SEPARATOR] @ n)"
    unfolding locate_mkdir_def locate_def Let_def
    using assms(3,4) sp ne
    by (simp add: PREFERRED_PATH_SEPARATOR_def c_str_id is_component_def strip_slashes_snoc)
  with locate_sep[OF assms] show ?thesis by simp
qed

lemma resolve_empties: "\<forall>c\<in>set es. c = [] \<Longrightarrow> resolve D c es = Reached k \<Longrightarrow> k = c"
  by (induction es) (auto split: if_splits)

lemma strip_slashes_decomp: "\<exists>es. cs = strip_slashes cs @ es \<and> (\<forall>c\<in>set es. c = [])"
proof -
  have "rev cs = takeWhile (\<lambda>c. c = []) (rev cs) @ dropWhile (\<lambda>c. c = []) (rev cs)" by simp
  then have "cs = rev (dropWhile (\<lambda>c. c = []) (rev cs)) @ rev (takeWhile (\<lambda>c. c = []) (rev cs))"
    by (metis rev_append rev_rev_ident)
  moreover have "\<forall>c\<in>set (rev (takeWhile (\<lambda>c. c = []) (rev cs))). c = []"
    by (auto dest: set_takeWhileD)
  ultimately show ?thesis unfolding strip_slashes_def by blast
qed

lemma resolve_strip: "resolve D cur cs = Reached k \<Longrightarrow> resolve D cur (strip_slashes cs) = Reached k"
proof -
  assume a: "resolve D cur cs = Reached k"
  obtain es where es: "cs = strip_slashes cs @ es" "\<forall>c\<in>set es. c = []"
    using strip_slashes_decomp by blast
  from a have "resolve D cur (strip_slashes cs @ es) = Reached k" using es(1) by simp
  then obtain c where c: "resolve D cur (strip_slashes cs) = Reached c" "resolve D c es = Reached k"
    by (auto simp: resolve_append split: lookup.splits)
  from resolve_empties[OF es(2) c(2)] c(1) show ?thesis by simp
qed

lemma locate_mkdir_of_locate: "locate D p = Reached k \<Longrightarrow> locate_mkdir D p = Reached k"
  unfolding locate_def locate_mkdir_def Let_def by (auto split: if_splits intro: resolve_strip)

lemma filenameEx_sep: "CHR ''/'' \<notin> set n \<Longrightarrow> filenameEx (p @ CHR ''/'' # n) = n"
  by (simp add: filenameEx_def split_path_sep split_path_no_sep)

lemma filenameEx_nonempty:
  assumes "filenameEx p \<noteq> []" shows "p \<noteq> []" and "last p \<noteq> CHR ''/''"
proof -
  show "p \<noteq> []" using assms by (auto simp: filenameEx_def)
  show "last p \<noteq> CHR ''/''"
  proof
    assume l: "last p = CHR ''/''"
    with \<open>p \<noteq> []\<close> obtain q where "p = q @ [CHR ''/'']" by (metis append_butlast_last_id)
    then have "filenameEx p = []" by (simp add: filenameEx_def split_path_sep)
    with assms show False by simp
  qed
qed

lemma entry_path_plain: "filenameEx p \<noteq> [] \<Longrightarrow> entry_path p n = p @ [PREFERRED_PATH_SEPARATOR] @ n"
  using filenameEx_nonempty[of p] by (simp add: entry_path_def PREFERRED_PATH_SEPARATOR_def)

lemma resolve_mono:
  "(\<And>c. is_dir D c \<Longrightarrow> is_dir D' c) \<Longrightarrow> resolve D cur xs = Reached r \<Longrightarrow> resolve D' cur xs = Reached r"
  by (induction D cur xs rule: resolve.induct) (auto split: if_splits)

lemma locate_mono:
  "(\<And>c. is_dir D c \<Longrightarrow> is_dir D' c) \<Longrightarrow> locate D p = Reached k \<Longrightarrow> locate D' p = Reached k"
  unfolding locate_def Let_def using resolve_mono[of D D'] by (auto split: if_splits)

lemma is_dir_append: "is_dir D c \<Longrightarrow> is_dir (D @ E) c"
  by (auto simp: is_dir_def map_add_def split: option.splits)

lemma locate_append: "locate D p = Reached k \<Longrightarrow> locate (D @ E) p = Reached k"
  by (rule locate_mono[of D]) (rule is_dir_append)

lemma map_of_absent: "k \<notin> fst ` set D \<Longrightarrow> map_of D k = None"
  by (simp add: map_of_eq_None_iff)

lemma set_content_absent: "k \<notin> fst ` set D \<Longrightarrow> set_content k s D = D"
  unfolding set_content_def by (induction D) auto

lemma tree_entries_prefix: "x \<in> set (tree_entries k t) \<Longrightarrow> prefix k (fst x)"
proof (induction t arbitrary: k x)
  case (Dir n fs ds)
  from Dir.prems consider "x = (k, Directory)"
    | f where "x = (k @ [File_name f], RegularFile (File_data f))"
    | l c where "ds = Some l" "c \<in> set l" "x \<in> set (tree_entries (k @ [Dir_name c]) c)"
    by (auto split: option.splits)
  then show ?case
  proof cases
    case 3
    from Dir.IH[OF _ 3(2,3)] 3(1) have "prefix (k @ [Dir_name c]) (fst x)" by simp
    then show ?thesis using append_prefixD by blast
  qed auto
qed

lemma dir_entries_mem:
  "(n, e) \<in> set (dir_entries D k) \<longleftrightarrow> (k @ [n], e) \<in> set D \<and> is_component n"
proof
  assume "(n, e) \<in> set (dir_entries D k)"
  then obtain key where key: "(key, e) \<in> set D" "key \<noteq> []" "butlast key = k"
    "is_component (last key)" "last key = n"
    by (auto simp: dir_entries_def)
  from key(2) have "butlast key @ [last key] = key" by (rule append_butlast_last_id)
  then have "k @ [n] = key" unfolding key(3,5) .
  with key(1,4,5) show "(k @ [n], e) \<in> set D \<and> is_component n" by metis
next
  assume "(k @ [n], e) \<in> set D \<and> is_component n"
  then have "(k @ [n], e) \<in> set (filter (\<lambda>(key, e). key \<noteq> [] \<and> butlast key = k \<and> is_component (last key)) D)"
    by simp
  then have "(\<lambda>(key, e). (last key, e)) (k @ [n], e) \<in> set (dir_entries D k)"
    unfolding dir_entries_def set_map by (rule imageI)
  then show "(n, e) \<in> set (dir_entries D k)" by simp
qed

subsection \<open>The order of a write\<close>

lemma foldE_append:
  "foldE f (xs @ ys) s = (case foldE f xs s of Inl e \<Rightarrow> Inl e | Inr s' \<Rightarrow> foldE f ys s')"
  by (induction xs arbitrary: s) (auto split: sum.splits)

lemma foldE_map: "foldE f (map h xs) s = foldE (\<lambda>x. f (h x)) xs s"
  by (induction xs arbitrary: s) (auto split: sum.splits)

lemma foldE_concat:
  "(\<And>x s. x \<in> set xs \<Longrightarrow> g x s = foldE f (h x) s) \<Longrightarrow>
   foldE g xs s = foldE f (concat (map h xs)) s"
  by (induction xs arbitrary: s) (auto simp: foldE_append split: sum.splits)

lemma Dir_write_steps:
  "Dir_write d path isOverwrite mode D = foldE run_step (write_steps d path isOverwrite mode) D"
proof (induction d arbitrary: path mode D)
  case (Dir n fs ds)
  have dirs: "foldE (\<lambda>var D. Dir_write var r isOverwrite Binary D) l D'
      = foldE run_step (concat (map (\<lambda>c. write_steps c r isOverwrite Binary) l)) D'"
    if "ds = Some l" for l D' r
    by (rule foldE_concat) (use Dir.IH that in auto)
  have files: "foldE (\<lambda>var D. File_write var r isOverwrite mode D) l D'
      = foldE run_step (map (\<lambda>f. WriteFile f r isOverwrite mode) l) D'" for l D' r
    unfolding foldE_map by (rule foldE_cong) simp_all
  show ?case
    by (cases fs; cases ds)
       (auto simp: Let_def foldE_append files dirs split: sum.splits prod.splits)
qed

lemma createDirectory_existing:
  assumes "isDirectory D path = Inr True" shows "createDirectory path D = Inr (False, D)"
proof -
  from assms obtain k where k: "locate D path = Reached k" "is_dir D k"
    by (cases "locate D path")
       (auto simp: isDirectory_def status_def is_dir_def split: option.splits entry.splits if_splits)
  from locate_mkdir_of_locate[OF k(1)] k(2) show ?thesis by (simp add: createDirectory_def)
qed

lemma write_steps_overwrite:
  "s \<in> set (write_steps d path isOverwrite mode) \<Longrightarrow> step_overwrite s \<noteq> Some (\<not> isOverwrite)"
proof (induction d arbitrary: path mode)
  case (Dir n fs ds)
  then show ?case
    by (auto simp: Let_def split: option.splits)
qed

lemma unallocated_write:
  "Dir_write (Dir n None ds) path isOverwrite mode D = Dir_write (Dir n (Some []) ds) path isOverwrite mode D"
  "Dir_write (Dir n fs None) path isOverwrite mode D = Dir_write (Dir n fs (Some [])) path isOverwrite mode D"
  by (simp_all add: Let_def split: sum.splits prod.splits option.splits)

text \<open>
  Claim C8. \<open>Dir_write\<close> does the steps of \<open>write_steps\<close> one after the other,
  stopping at the first that throws: it creates the directory \<open>path/name\<close>, writes the
  child files in the order of their collection, and then does the same for each child
  directory under \<open>path/name\<close>, in the order of their collection. Every file write in
  the list carries the overwrite flag of the call. Creating the directory where it
  exists already is no error and leaves the disk as it is.
\<close>

theorem Dir_write_order:
  "Dir_write d path isOverwrite mode D = foldE run_step (write_steps d path isOverwrite mode) D
   \<and> write_steps d path isOverwrite mode =
       CreateDirectory (path @ [PREFERRED_PATH_SEPARATOR] @ Dir_name d)
       # map (\<lambda>f. WriteFile f (path @ [PREFERRED_PATH_SEPARATOR] @ Dir_name d) isOverwrite mode)
           (child_files d)
       @ concat (map (\<lambda>c. write_steps c (path @ [PREFERRED_PATH_SEPARATOR] @ Dir_name d) isOverwrite Binary)
           (child_dirs d))
   \<and> (\<forall>s \<in> set (write_steps d path isOverwrite mode).
         step_overwrite s = None \<or> step_overwrite s = Some isOverwrite)
   \<and> (isDirectory D (path @ [PREFERRED_PATH_SEPARATOR] @ Dir_name d) = Inr True \<longrightarrow>
        run_step (CreateDirectory (path @ [PREFERRED_PATH_SEPARATOR] @ Dir_name d)) D = Inr D)"
proof -
  have "step_overwrite s = None \<or> step_overwrite s = Some isOverwrite"
    if "s \<in> set (write_steps d path isOverwrite mode)" for s
    using write_steps_overwrite[OF that] by (cases "step_overwrite s") auto
  moreover have "write_steps d path isOverwrite mode =
       CreateDirectory (path @ [PREFERRED_PATH_SEPARATOR] @ Dir_name d)
       # map (\<lambda>f. WriteFile f (path @ [PREFERRED_PATH_SEPARATOR] @ Dir_name d) isOverwrite mode)
           (child_files d)
       @ concat (map (\<lambda>c. write_steps c (path @ [PREFERRED_PATH_SEPARATOR] @ Dir_name d) isOverwrite Binary)
           (child_dirs d))"
    by (cases d) (simp add: Let_def child_files_def child_dirs_def Dir_name_def)
  ultimately show ?thesis
    by (simp add: Dir_write_steps createDirectory_existing)
qed


theorem Dir_write_order_witness:
  "isDirectory [([''tmp''], Directory), ([''tmp'', ''proj''], Directory)] (''/tmp'' @ [PREFERRED_PATH_SEPARATOR] @ ''proj'')
       = Inr True
   \<and> run_step (CreateDirectory (''/tmp'' @ [PREFERRED_PATH_SEPARATOR] @ ''proj''))
         [([''tmp''], Directory), ([''tmp'', ''proj''], Directory)]
       = Inr [([''tmp''], Directory), ([''tmp'', ''proj''], Directory)]
   \<and> write_steps (Dir ''proj'' (Some [\<lparr>name' = ''a.txt'', data' = Some ''hi''\<rparr>])
          (Some [Dir ''src'' (Some [\<lparr>name' = ''b.txt'', data' = Some ''bye''\<rparr>]) None])) ''/tmp'' True Binary
       = [CreateDirectory ''/tmp/proj'',
          WriteFile \<lparr>name' = ''a.txt'', data' = Some ''hi''\<rparr> ''/tmp/proj'' True Binary,
          CreateDirectory ''/tmp/proj/src'',
          WriteFile \<lparr>name' = ''b.txt'', data' = Some ''bye''\<rparr> ''/tmp/proj/src'' True Binary]
   \<and> Dir_write (Dir ''proj'' (Some [\<lparr>name' = ''a.txt'', data' = Some ''hi''\<rparr>])
          (Some [Dir ''src'' (Some [\<lparr>name' = ''b.txt'', data' = Some ''bye''\<rparr>]) None])) ''/tmp'' True Binary
         [([''tmp''], Directory), ([''tmp'', ''proj''], Directory)]
       = Inr [([''tmp''], Directory), ([''tmp'', ''proj''], Directory),
              ([''tmp'', ''proj'', ''a.txt''], RegularFile ''hi''),
              ([''tmp'', ''proj'', ''src''], Directory),
              ([''tmp'', ''proj'', ''src'', ''b.txt''], RegularFile ''bye'')]"
proof -
  have h: "isDirectory [([''tmp''], Directory), ([''tmp'', ''proj''], Directory)]
             (''/tmp'' @ [PREFERRED_PATH_SEPARATOR] @ Dir_name (Dir ''proj'' (Some [\<lparr>name' = ''a.txt'', data' = Some ''hi''\<rparr>])
          (Some [Dir ''src'' (Some [\<lparr>name' = ''b.txt'', data' = Some ''bye''\<rparr>]) None])))
           = Inr True"
    by code_simp
  have w: "Dir_write (Dir ''proj'' (Some [\<lparr>name' = ''a.txt'', data' = Some ''hi''\<rparr>])
          (Some [Dir ''src'' (Some [\<lparr>name' = ''b.txt'', data' = Some ''bye''\<rparr>]) None])) ''/tmp'' True Binary
         [([''tmp''], Directory), ([''tmp'', ''proj''], Directory)]
       = Inr [([''tmp''], Directory), ([''tmp'', ''proj''], Directory),
              ([''tmp'', ''proj'', ''a.txt''], RegularFile ''hi''),
              ([''tmp'', ''proj'', ''src''], Directory),
              ([''tmp'', ''proj'', ''src'', ''b.txt''], RegularFile ''bye'')]"
    by code_simp
  show ?thesis
    using h w Dir_write_order[of "Dir ''proj'' (Some [\<lparr>name' = ''a.txt'', data' = Some ''hi''\<rparr>])
          (Some [Dir ''src'' (Some [\<lparr>name' = ''b.txt'', data' = Some ''bye''\<rparr>]) None])" "''/tmp''" True Binary
          "[([''tmp''], Directory), ([''tmp'', ''proj''], Directory)]"]
    by (simp add: Dir_name_def PREFERRED_PATH_SEPARATOR_def Let_def)
qed

subsection \<open>Writing a tree and reading it back\<close>

lemma prefix_snoc_same: "prefix (k @ [a]) z \<Longrightarrow> prefix (k @ [b]) z \<Longrightarrow> a = b"
  by (auto simp: prefix_def append_eq_append_conv2 Cons_eq_append_conv)

lemma not_prefix_snoc_self: "\<not> prefix (k @ [a]) k"
  by (auto simp: prefix_def)

lemma prefix_snoc_snoc: "prefix (k @ [a]) (k @ [b]) \<longleftrightarrow> a = b"
  by (auto simp: prefix_def)

lemma fresh_absent: "\<forall>x\<in>set D. \<not> prefix kk (fst x) \<Longrightarrow> kk \<notin> fst ` set D"
  by auto

lemma File_write_fresh:
  assumes "locate D root = Reached kk" and "is_dir D kk" and "is_component (File_name f)"
    and "kk @ [File_name f] \<notin> fst ` set D" and "data' f \<noteq> None"
    and "CHR 0x00 \<notin> set root" and "length root + 1 + length (File_name f) < PATH_MAX"
  shows "File_write f root ow mode D = Inr (D @ [(kk @ [File_name f], RegularFile (File_data f))])"
proof -
  let ?key = "kk @ [File_name f]"
  let ?p = "root @ [PREFERRED_PATH_SEPARATOR] @ name' f"
  have loc: "locate D ?p = Reached ?key"
    using locate_sep[OF assms(1,2,3,6,7)] by (simp add: File_name_def)
  have none: "map_of D ?key = None" using assms(4) by (rule map_of_absent)
  have nf: "isFile D ?p = Inr False" using loc none by (simp add: isFile_def status_def)
  have nd: "\<not> is_dir D ?key" using none by (simp add: is_dir_def)
  have op: "ofstream_open ?p mode D = Some (?key, D @ [(?key, RegularFile [])])"
    using loc none nd assms(2) by (simp add: ofstream_open_def)
  from assms(5) obtain s where s: "data' f = Some s" by auto
  have "set_content ?key s (D @ [(?key, RegularFile [])]) = set_content ?key s D @ [(?key, RegularFile s)]"
    by (simp add: set_content_def)
  then have put: "ofstream_put ?key s (D @ [(?key, RegularFile [])]) = D @ [(?key, RegularFile s)]"
    using none set_content_absent[OF assms(4)] by (simp add: ofstream_put_def map_add_def)
  show ?thesis
    using nf op s put by (simp add: File_write_def File_write_os_def File_data_def Let_def)
qed

lemma files_fold_fresh:
  assumes "locate D root = Reached kk" and "is_dir D kk"
    and "\<forall>f\<in>set l. is_component (File_name f) \<and> data' f \<noteq> None \<and> kk @ [File_name f] \<notin> fst ` set D
           \<and> length root + 1 + length (File_name f) < PATH_MAX"
    and "distinct (map File_name l)" and "CHR 0x00 \<notin> set root"
  shows "foldE (\<lambda>var D. File_write var root ow mode D) l D
       = Inr (D @ map (\<lambda>f. (kk @ [File_name f], RegularFile (File_data f))) l)"
  using assms
proof (induction l arbitrary: D)
  case Nil then show ?case by simp
next
  case (Cons f l)
  let ?D1 = "D @ [(kk @ [File_name f], RegularFile (File_data f))]"
  have w: "File_write f root ow mode D = Inr ?D1"
    using File_write_fresh[OF Cons.prems(1,2) _ _ _ Cons.prems(5)] Cons.prems(3) by simp
  have "foldE (\<lambda>var D. File_write var root ow mode D) l ?D1
       = Inr (?D1 @ map (\<lambda>f. (kk @ [File_name f], RegularFile (File_data f))) l)"
  proof (rule Cons.IH)
    show "locate ?D1 root = Reached kk" using Cons.prems(1) by (rule locate_append)
    show "is_dir ?D1 kk" using Cons.prems(2) by (rule is_dir_append)
    show "\<forall>g\<in>set l. is_component (File_name g) \<and> data' g \<noteq> None \<and> kk @ [File_name g] \<notin> fst ` set ?D1
           \<and> length root + 1 + length (File_name g) < PATH_MAX"
      using Cons.prems(3,4) by (auto simp: image_iff)
    show "distinct (map File_name l)" using Cons.prems(4) by simp
    show "CHR 0x00 \<notin> set root" by (rule Cons.prems(5))
  qed
  with w show ?case by simp
qed

lemma dirs_fold_fresh:
  assumes IH: "\<And>c path k D mode. c \<in> set cs \<Longrightarrow> storable c \<Longrightarrow>
           fits (length path + 1 + length (Dir_name c)) c \<Longrightarrow> CHR 0x00 \<notin> set path \<Longrightarrow>
           locate D path = Reached k \<Longrightarrow> is_dir D k \<Longrightarrow>
           \<forall>x\<in>set D. \<not> prefix (k @ [Dir_name c]) (fst x) \<Longrightarrow>
           Dir_write c path ow mode D = Inr (D @ tree_entries (k @ [Dir_name c]) c)"
    and "\<forall>c\<in>set cs. storable c \<and> fits (length root + 1 + length (Dir_name c)) c"
    and "distinct (map Dir_name cs)" and "CHR 0x00 \<notin> set root"
    and "locate D root = Reached kk" and "is_dir D kk"
    and "\<forall>c\<in>set cs. \<forall>x\<in>set D. \<not> prefix (kk @ [Dir_name c]) (fst x)"
  shows "foldE (\<lambda>var D. Dir_write var root ow Binary D) cs D
       = Inr (D @ concat (map (\<lambda>c. tree_entries (kk @ [Dir_name c]) c) cs))"
  using assms
proof (induction cs arbitrary: D)
  case Nil then show ?case by simp
next
  case (Cons c cs)
  let ?D1 = "D @ tree_entries (kk @ [Dir_name c]) c"
  have w: "Dir_write c root ow Binary D = Inr ?D1"
    using Cons.prems(1)[of c root D kk Binary] Cons.prems(2,4,5,6,7) by simp
  have "foldE (\<lambda>var D. Dir_write var root ow Binary D) cs ?D1
       = Inr (?D1 @ concat (map (\<lambda>c. tree_entries (kk @ [Dir_name c]) c) cs))"
  proof (rule Cons.IH)
    show "\<And>c path k D mode. c \<in> set cs \<Longrightarrow> storable c \<Longrightarrow>
           fits (length path + 1 + length (Dir_name c)) c \<Longrightarrow> CHR 0x00 \<notin> set path \<Longrightarrow>
           locate D path = Reached k \<Longrightarrow> is_dir D k \<Longrightarrow>
           \<forall>x\<in>set D. \<not> prefix (k @ [Dir_name c]) (fst x) \<Longrightarrow>
           Dir_write c path ow mode D = Inr (D @ tree_entries (k @ [Dir_name c]) c)"
      using Cons.prems(1) by simp
    show "\<forall>c\<in>set cs. storable c \<and> fits (length root + 1 + length (Dir_name c)) c"
      using Cons.prems(2) by simp
    show "distinct (map Dir_name cs)" using Cons.prems(3) by simp
    show "CHR 0x00 \<notin> set root" by (rule Cons.prems(4))
    show "locate ?D1 root = Reached kk" using Cons.prems(5) by (rule locate_append)
    show "is_dir ?D1 kk" using Cons.prems(6) by (rule is_dir_append)
    show "\<forall>c'\<in>set cs. \<forall>x\<in>set ?D1. \<not> prefix (kk @ [Dir_name c']) (fst x)"
    proof (intro ballI notI)
      fix c' x assume c': "c' \<in> set cs" and x: "x \<in> set ?D1" and p: "prefix (kk @ [Dir_name c']) (fst x)"
      from x show False
      proof (simp only: set_append Un_iff, elim disjE)
        assume "x \<in> set D" with Cons.prems(7) c' p show False by auto
      next
        assume "x \<in> set (tree_entries (kk @ [Dir_name c]) c)"
        then have "prefix (kk @ [Dir_name c]) (fst x)" by (rule tree_entries_prefix)
        with p have "Dir_name c' = Dir_name c" by (rule prefix_snoc_same[rotated, THEN sym])
        with Cons.prems(3) c' show False by (auto simp: image_iff)
      qed
    qed
  qed
  with w show ?case by simp
qed

lemma Dir_write_fresh:
  assumes "storable t" and "fits (length path + 1 + length (Dir_name t)) t"
    and "CHR 0x00 \<notin> set path" and "locate D path = Reached k" and "is_dir D k"
    and "\<forall>x\<in>set D. \<not> prefix (k @ [Dir_name t]) (fst x)"
  shows "Dir_write t path ow mode D = Inr (D @ tree_entries (k @ [Dir_name t]) t)"
  using assms
proof (induction t arbitrary: path k D mode)
  case (Dir n fs ds)
  define F where "F = (case fs of None \<Rightarrow> [] | Some l \<Rightarrow> l)"
  define C where "C = (case ds of None \<Rightarrow> [] | Some l \<Rightarrow> l)"
  define kk where "kk = k @ [n]"
  define root where "root = path @ [PREFERRED_PATH_SEPARATOR] @ n"
  have lroot: "length root = length path + 1 + length n" by (simp add: root_def)
  from Dir.prems(1) have comp: "is_component n"
    and Fok: "\<forall>f\<in>set F. is_component (File_name f) \<and> data' f \<noteq> None"
    and dist: "distinct (map File_name F @ map Dir_name C)"
    and Cok: "\<forall>c\<in>set C. storable c"
    by (auto simp: F_def C_def list_all_iff)
  from Dir.prems(2) have rlen: "length path + 1 + length n < PATH_MAX"
    and Flen: "\<forall>f\<in>set F. length root + 1 + length (File_name f) < PATH_MAX"
    and Cfit: "\<forall>c\<in>set C. fits (length root + 1 + length (Dir_name c)) c"
    by (auto simp: F_def C_def list_all_iff Dir_name_def lroot)
  have rnul: "CHR 0x00 \<notin> set root"
    using Dir.prems(3) comp by (auto simp: root_def PREFERRED_PATH_SEPARATOR_def is_component_def)
  from Dir.prems(6) have fresh: "\<forall>x\<in>set D. \<not> prefix kk (fst x)"
    by (simp add: kk_def Dir_name_def)
  have loc: "locate D root = Reached kk"
    unfolding root_def kk_def by (rule locate_sep[OF Dir.prems(4,5) comp Dir.prems(3) rlen])
  have locm: "locate_mkdir D root = Reached kk"
    unfolding root_def kk_def by (rule locate_mkdir_sep[OF Dir.prems(4,5) comp Dir.prems(3) rlen])
  have absent: "kk \<notin> fst ` set D" using fresh by (rule fresh_absent)
  then have none: "map_of D kk = None" by (rule map_of_absent)
  have kkne: "kk \<noteq> []" by (simp add: kk_def)
  define D1 where "D1 = D @ [(kk, Directory)]"
  have cd: "createDirectory root D = Inr (True, D1)"
    using locm none kkne Dir.prems(5)
    by (simp add: createDirectory_def is_dir_def kk_def D1_def)
  have loc1: "locate D1 root = Reached kk" unfolding D1_def using loc by (rule locate_append)
  have dir1: "is_dir D1 kk"
    using none by (simp add: D1_def is_dir_def map_add_def)
  define D2 where "D2 = D1 @ map (\<lambda>f. (kk @ [File_name f], RegularFile (File_data f))) F"
  have ff: "foldE (\<lambda>var D. File_write var root ow mode D) F D1 = Inr D2"
    unfolding D2_def
  proof (rule files_fold_fresh[OF loc1 dir1 _ _ rnul])
    show "\<forall>f\<in>set F. is_component (File_name f) \<and> data' f \<noteq> None \<and> kk @ [File_name f] \<notin> fst ` set D1
            \<and> length root + 1 + length (File_name f) < PATH_MAX"
    proof
      fix f assume f: "f \<in> set F"
      have "kk @ [File_name f] \<notin> fst ` set D"
      proof
        assume "kk @ [File_name f] \<in> fst ` set D"
        then obtain x where "x \<in> set D" "fst x = kk @ [File_name f]" by auto
        with fresh show False by (metis prefixI)
      qed
      with f Fok Flen show "is_component (File_name f) \<and> data' f \<noteq> None \<and> kk @ [File_name f] \<notin> fst ` set D1
            \<and> length root + 1 + length (File_name f) < PATH_MAX"
        by (simp add: D1_def)
    qed
    show "distinct (map File_name F)" using dist by simp
  qed
  have df: "foldE (\<lambda>var D. Dir_write var root ow Binary D) C D2
      = Inr (D2 @ concat (map (\<lambda>c. tree_entries (kk @ [Dir_name c]) c) C))"
  proof (rule dirs_fold_fresh)
    fix c path' k' D' mode'
    assume c: "c \<in> set C" and "storable c" "fits (length path' + 1 + length (Dir_name c)) c"
      "CHR 0x00 \<notin> set path'" "locate D' path' = Reached k'" "is_dir D' k'"
      "\<forall>x\<in>set D'. \<not> prefix (k' @ [Dir_name c]) (fst x)"
    moreover from c obtain l where "ds = Some l" "c \<in> set l"
      by (auto simp: C_def split: option.splits)
    ultimately show "Dir_write c path' ow mode' D' = Inr (D' @ tree_entries (k' @ [Dir_name c]) c)"
      using Dir.IH[of l c path' D' k' mode'] by simp
  next
    show "\<forall>c\<in>set C. storable c \<and> fits (length root + 1 + length (Dir_name c)) c"
      using Cok Cfit by simp
    show "distinct (map Dir_name C)" using dist by simp
    show "CHR 0x00 \<notin> set root" by (rule rnul)
    show "locate D2 root = Reached kk" unfolding D2_def using loc1 by (rule locate_append)
    show "is_dir D2 kk" unfolding D2_def using dir1 by (rule is_dir_append)
    show "\<forall>c\<in>set C. \<forall>x\<in>set D2. \<not> prefix (kk @ [Dir_name c]) (fst x)"
    proof (intro ballI notI)
      fix c x assume c: "c \<in> set C" and x: "x \<in> set D2" and p: "prefix (kk @ [Dir_name c]) (fst x)"
      from x consider "x \<in> set D" | "x = (kk, Directory)"
        | f where "f \<in> set F" "x = (kk @ [File_name f], RegularFile (File_data f))"
        by (auto simp: D2_def D1_def)
      then show False
      proof cases
        case 1
        from p have "prefix kk (fst x)" using append_prefixD by blast
        with 1 fresh show False by auto
      next
        case 2 with p show False by (simp add: not_prefix_snoc_self)
      next
        case 3
        with p have "Dir_name c = File_name f" by (simp add: prefix_snoc_snoc)
        with c 3(1) dist show False by auto
      qed
    qed
  qed
  have "Dir_write (Dir n fs ds) path ow mode D
      = (case createDirectory root D of Inl e \<Rightarrow> Inl e
         | Inr (created, D) \<Rightarrow>
            (case foldE (\<lambda>var D. File_write var root ow mode D) F D of Inl e \<Rightarrow> Inl e
             | Inr D \<Rightarrow> foldE (\<lambda>var D. Dir_write var root ow Binary D) C D))"
    by (cases fs; cases ds) (auto simp: Let_def root_def F_def C_def split: sum.splits prod.splits)
  also have "\<dots> = Inr (D2 @ concat (map (\<lambda>c. tree_entries (kk @ [Dir_name c]) c) C))"
    using cd ff df by simp
  also have "\<dots> = Inr (D @ tree_entries kk (Dir n fs ds))"
    by (simp add: D2_def D1_def F_def C_def)
  finally show ?case by (simp add: kk_def Dir_name_def)
qed

lemma hasDir'_None: "hasDir' r nm = None \<longleftrightarrow> nm \<notin> Dir_name ` set (child_dirs r)"
  by (auto simp: hasDir'_def child_dirs_def first_index_None split: option.splits)

lemma hasFile'_None: "hasFile' r nm = None \<longleftrightarrow> nm \<notin> File_name ` set (child_files r)"
  by (auto simp: hasFile'_def child_files_def first_index_None split: option.splits)

lemma add_Dir_new:
  "Dir_name x \<notin> Dir_name ` set (child_dirs r) \<Longrightarrow>
   fst (add_Dir r x False) = Dir (dir_name' r) (subFiles' r) (Some (child_dirs r @ [x]))"
proof -
  assume a: "Dir_name x \<notin> Dir_name ` set (child_dirs r)"
  then have "hasDir' r (Dir_name x) = None" by (simp add: hasDir'_None)
  moreover have "hasDir' (Dir (dir_name' r) (subFiles' r) (Some [])) (Dir_name x) = None"
    by (simp add: hasDir'_def)
  ultimately show ?thesis
    by (cases r; cases x)
       (auto simp: add_Dir_def Dir_move_def child_dirs_def Let_def split: option.splits)
qed

lemma add_File_new:
  "File_name x \<notin> File_name ` set (child_files r) \<Longrightarrow>
   fst (add_File r x False) = Dir (dir_name' r) (Some (child_files r @ [x])) (subDirs' r)"
proof -
  assume a: "File_name x \<notin> File_name ` set (child_files r)"
  then have "hasFile' r (File_name x) = None" by (simp add: hasFile'_None)
  moreover have "hasFile' (Dir (dir_name' r) (Some []) (subDirs' r)) (File_name x) = None"
    by (simp add: hasFile'_def)
  ultimately show ?thesis
    by (cases r; cases x)
       (auto simp: add_File_def File_move_def File_default_def child_files_def Let_def
          split: option.splits)
qed

lemma fold_add_dirs:
  assumes "\<forall>v\<in>set vs. rd v = Some (Inr (g v)) \<and> Dir_name (g v) = nm v"
    and "distinct (map nm vs)"
    and "nm ` set vs \<inter> Dir_name ` set (child_dirs r) = {}"
  shows "foldEO (\<lambda>var root. Option.bind (rd var)
                  (\<lambda>r. case r of Inl e \<Rightarrow> Some (Inl e)
                        | Inr x \<Rightarrow> Some (Inr (fst (add_Dir root x False))))) vs r
       = Some (Inr (Dir (dir_name' r) (subFiles' r)
               (if vs = [] then subDirs' r else Some (child_dirs r @ map g vs))))"
  using assms
proof (induction vs arbitrary: r)
  case Nil then show ?case by simp
next
  case (Cons v vs)
  let ?r1 = "Dir (dir_name' r) (subFiles' r) (Some (child_dirs r @ [g v]))"
  have new: "Dir_name (g v) \<notin> Dir_name ` set (child_dirs r)"
    using Cons.prems(1,3) by auto
  have step: "fst (add_Dir r (g v) False) = ?r1" using new by (rule add_Dir_new)
  have "foldEO (\<lambda>var root. Option.bind (rd var)
                  (\<lambda>r. case r of Inl e \<Rightarrow> Some (Inl e)
                        | Inr x \<Rightarrow> Some (Inr (fst (add_Dir root x False))))) vs ?r1
       = Some (Inr (Dir (dir_name' ?r1) (subFiles' ?r1)
               (if vs = [] then subDirs' ?r1 else Some (child_dirs ?r1 @ map g vs))))"
  proof (rule Cons.IH)
    show "\<forall>v\<in>set vs. rd v = Some (Inr (g v)) \<and> Dir_name (g v) = nm v" using Cons.prems(1) by simp
    show "distinct (map nm vs)" using Cons.prems(2) by simp
    show "nm ` set vs \<inter> Dir_name ` set (child_dirs ?r1) = {}"
      using Cons.prems(1,2,3) by (auto simp: child_dirs_def image_iff)
  qed
  with Cons.prems(1) step show ?case by (simp add: child_dirs_def)
qed

lemma foldEO_map: "foldEO f (map h xs) s = foldEO (\<lambda>x. f (h x)) xs s"
proof (induction xs arbitrary: s)
  case Nil show ?case by simp
next
  case (Cons a xs)
  have "foldEO f (map h xs) = foldEO (\<lambda>x. f (h x)) xs" by (rule ext) (rule Cons.IH)
  then show ?case by simp
qed

lemma fold_add_files:
  assumes "\<forall>v\<in>set vs. rd v = Inr (g v) \<and> File_name (g v) = nm v"
    and "distinct (map nm vs)"
    and "nm ` set vs \<inter> File_name ` set (child_files r) = {}"
  shows "foldE (\<lambda>var root. case rd var of Inl e \<Rightarrow> Inl e | Inr x \<Rightarrow> Inr (fst (add_File root x False))) vs r
       = Inr (Dir (dir_name' r)
               (if vs = [] then subFiles' r else Some (child_files r @ map g vs)) (subDirs' r))"
  using assms
proof (induction vs arbitrary: r)
  case Nil then show ?case by simp
next
  case (Cons v vs)
  let ?r1 = "Dir (dir_name' r) (Some (child_files r @ [g v])) (subDirs' r)"
  have new: "File_name (g v) \<notin> File_name ` set (child_files r)"
    using Cons.prems(1,3) by auto
  have step: "fst (add_File r (g v) False) = ?r1" using new by (rule add_File_new)
  have "foldE (\<lambda>var root. case rd var of Inl e \<Rightarrow> Inl e | Inr x \<Rightarrow> Inr (fst (add_File root x False))) vs ?r1
       = Inr (Dir (dir_name' ?r1)
               (if vs = [] then subFiles' ?r1 else Some (child_files ?r1 @ map g vs)) (subDirs' ?r1))"
  proof (rule Cons.IH)
    show "\<forall>v\<in>set vs. rd v = Inr (g v) \<and> File_name (g v) = nm v" using Cons.prems(1) by simp
    show "distinct (map nm vs)" using Cons.prems(2) by simp
    show "nm ` set vs \<inter> File_name ` set (child_files ?r1) = {}"
      using Cons.prems(1,2,3) by (auto simp: child_files_def image_iff)
  qed
  with Cons.prems(1) step show ?case by (simp add: child_files_def)
qed

lemma dir_entries_distinct:
  assumes "distinct (map fst D)" shows "distinct (map fst (dir_entries D k))"
proof -
  let ?P = "\<lambda>(key, e::entry). key \<noteq> [] \<and> butlast key = k \<and> is_component (last key)"
  have eq: "map fst (dir_entries D k) = map (last \<circ> fst) (filter ?P D)"
    by (simp add: dir_entries_def comp_def case_prod_beta)
  have d: "distinct (map fst (filter ?P D))" using assms by (rule distinct_map_filter)
  have inj: "inj_on last (set (map fst (filter ?P D)))"
  proof (rule inj_onI)
    fix a b assume "a \<in> set (map fst (filter ?P D))" "b \<in> set (map fst (filter ?P D))" "last a = last b"
    then have "a \<noteq> []" "b \<noteq> []" "butlast a = butlast b" "last a = last b" by auto
    then show "a = b" by (metis append_butlast_last_id)
  qed
  have "distinct (map last (map fst (filter ?P D)))"
    using d inj by (simp only: distinct_map)
  then show ?thesis by (simp add: eq)
qed

lemma tree_entries_cases:
  "x \<in> set (tree_entries k t) \<longleftrightarrow>
     x = (k, Directory)
     \<or> (\<exists>f\<in>set (child_files t). x = (k @ [File_name f], RegularFile (File_data f)))
     \<or> (\<exists>c\<in>set (child_dirs t). x \<in> set (tree_entries (k @ [Dir_name c]) c))"
  by (cases t) (auto simp: child_files_def child_dirs_def split: option.splits)

lemma tree_entries_head: "(k, Directory) \<in> set (tree_entries k t)"
  by (cases t) simp

lemma tree_entries_at_root:
  assumes "x \<in> set (tree_entries k t)" and "fst x = k" shows "x = (k, Directory)"
proof -
  from assms(1) consider "x = (k, Directory)"
    | f where "x = (k @ [File_name f], RegularFile (File_data f))"
    | c where "x \<in> set (tree_entries (k @ [Dir_name c]) c)"
    unfolding tree_entries_cases[of x k t] by blast
  then show ?thesis
  proof cases
    case 2 with assms(2) show ?thesis by simp
  next
    case 3
    then have "prefix (k @ [Dir_name c]) (fst x)" by (rule tree_entries_prefix)
    with assms(2) show ?thesis by (simp add: not_prefix_snoc_self)
  qed
qed

lemma storable_iff:
  "storable t \<longleftrightarrow>
     isValidFilename (Dir_name t) \<and> is_component (Dir_name t)
     \<and> (\<forall>f\<in>set (child_files t). is_component (File_name f) \<and> data' f \<noteq> None)
     \<and> distinct (map File_name (child_files t) @ map Dir_name (child_dirs t))
     \<and> (\<forall>c\<in>set (child_dirs t). storable c)"
  by (cases t) (simp add: child_files_def child_dirs_def Dir_name_def list_all_iff)

lemma storable_children:
  assumes "storable t"
  shows "isValidFilename (Dir_name t)"
    and "\<forall>f\<in>set (child_files t). is_component (File_name f) \<and> data' f \<noteq> None"
    and "distinct (map File_name (child_files t))"
    and "distinct (map Dir_name (child_dirs t))"
    and "File_name ` set (child_files t) \<inter> Dir_name ` set (child_dirs t) = {}"
    and "\<forall>c\<in>set (child_dirs t). storable c"
    and "is_component (Dir_name t)"
  using assms unfolding storable_iff[of t] by simp_all

lemma fits_iff:
  "fits r t \<longleftrightarrow>
     r < PATH_MAX
     \<and> (\<forall>f\<in>set (child_files t). r + 1 + length (File_name f) < PATH_MAX)
     \<and> (\<forall>c\<in>set (child_dirs t). fits (r + 1 + length (Dir_name c)) c)"
  by (cases t) (simp add: child_files_def child_dirs_def list_all_iff)

lemma holds_atD1: "holds_at D k t \<Longrightarrow> x \<in> set D \<Longrightarrow> prefix k (fst x) \<Longrightarrow> x \<in> set (tree_entries k t)"
  unfolding holds_at_def by blast

lemma holds_atD2: "holds_at D k t \<Longrightarrow> x \<in> set (tree_entries k t) \<Longrightarrow> x \<in> set D"
  unfolding holds_at_def by blast

lemma holds_at_child:
  assumes h: "holds_at D k t" and s: "storable t" and c: "c \<in> set (child_dirs t)"
  shows "holds_at D (k @ [Dir_name c]) c"
  unfolding holds_at_def
proof (intro allI iffI)
  fix x assume x: "x \<in> set D \<and> prefix (k @ [Dir_name c]) (fst x)"
  then have pk: "prefix k (fst x)" using append_prefixD by blast
  with x h have "x \<in> set (tree_entries k t)" by (blast intro: holds_atD1)
  then consider "x = (k, Directory)"
    | f where "f \<in> set (child_files t)" "x = (k @ [File_name f], RegularFile (File_data f))"
    | c' where "c' \<in> set (child_dirs t)" "x \<in> set (tree_entries (k @ [Dir_name c']) c')"
    unfolding tree_entries_cases[of x k t] by blast
  then show "x \<in> set (tree_entries (k @ [Dir_name c]) c)"
  proof cases
    case 1 with x show ?thesis by (simp add: not_prefix_snoc_self)
  next
    case 2
    with x have "Dir_name c = File_name f" by (simp add: prefix_snoc_snoc)
    with 2(1) c storable_children(5)[OF s] show ?thesis by auto
  next
    case 3
    from 3(2) have "prefix (k @ [Dir_name c']) (fst x)" by (rule tree_entries_prefix)
    moreover from x have "prefix (k @ [Dir_name c]) (fst x)" by simp
    ultimately have "Dir_name c' = Dir_name c" by (rule prefix_snoc_same)
    moreover from storable_children(4)[OF s] have "inj_on Dir_name (set (child_dirs t))"
      by (simp add: distinct_map)
    ultimately have "c' = c" using 3(1) c by (auto dest: inj_onD)
    with 3(2) show ?thesis by simp
  qed
next
  fix x assume x: "x \<in> set (tree_entries (k @ [Dir_name c]) c)"
  then have "x \<in> set (tree_entries k t)" using c unfolding tree_entries_cases[of x k t] by blast
  with h have "x \<in> set D" by (rule holds_atD2)
  with tree_entries_prefix[OF x] show "x \<in> set D \<and> prefix (k @ [Dir_name c]) (fst x)" by simp
qed

lemma holds_at_dirs:
  assumes h: "holds_at D k t"
  shows "(k @ [nm], Directory) \<in> set D \<longleftrightarrow> nm \<in> Dir_name ` set (child_dirs t)"
proof
  assume "(k @ [nm], Directory) \<in> set D"
  with h have "(k @ [nm], Directory) \<in> set (tree_entries k t)" by (auto intro: holds_atD1)
  then obtain c where c: "c \<in> set (child_dirs t)" "(k @ [nm], Directory) \<in> set (tree_entries (k @ [Dir_name c]) c)"
    by (auto simp: tree_entries_cases[of _ k t])
  from tree_entries_prefix[OF c(2)] have "Dir_name c = nm" by (simp add: prefix_snoc_snoc)
  with c(1) show "nm \<in> Dir_name ` set (child_dirs t)" by auto
next
  assume "nm \<in> Dir_name ` set (child_dirs t)"
  then obtain c where c: "c \<in> set (child_dirs t)" "nm = Dir_name c" by auto
  then have "(k @ [nm], Directory) \<in> set (tree_entries k t)"
    using tree_entries_head[of "k @ [Dir_name c]" c] by (auto simp: tree_entries_cases[of _ k t])
  with h show "(k @ [nm], Directory) \<in> set D" by (blast intro: holds_atD2)
qed

lemma holds_at_files:
  assumes h: "holds_at D k t"
  shows "(k @ [nm], RegularFile s) \<in> set D \<longleftrightarrow>
         (\<exists>f\<in>set (child_files t). File_name f = nm \<and> File_data f = s)"
proof
  assume "(k @ [nm], RegularFile s) \<in> set D"
  with h have "(k @ [nm], RegularFile s) \<in> set (tree_entries k t)" by (auto intro: holds_atD1)
  then consider f where "f \<in> set (child_files t)" "File_name f = nm" "File_data f = s"
    | c where "c \<in> set (child_dirs t)" "(k @ [nm], RegularFile s) \<in> set (tree_entries (k @ [Dir_name c]) c)"
    by (auto simp: tree_entries_cases[of _ k t])
  then show "\<exists>f\<in>set (child_files t). File_name f = nm \<and> File_data f = s"
  proof cases
    case 1 then show ?thesis by auto
  next
    case 2
    from tree_entries_prefix[OF 2(2)] have "Dir_name c = nm" by (simp add: prefix_snoc_snoc)
    with tree_entries_at_root[OF 2(2)] show ?thesis by simp
  qed
next
  assume "\<exists>f\<in>set (child_files t). File_name f = nm \<and> File_data f = s"
  then have "(k @ [nm], RegularFile s) \<in> set (tree_entries k t)"
    by (auto simp: tree_entries_cases[of _ k t])
  with h show "(k @ [nm], RegularFile s) \<in> set D" by (blast intro: holds_atD2)
qed

lemma holds_at_root: "holds_at D k t \<Longrightarrow> (k, Directory) \<in> set D"
  using tree_entries_head[of k t] by (blast intro: holds_atD2)

lemma map_of_distinct: "distinct (map fst D) \<Longrightarrow> (k, v) \<in> set D \<Longrightarrow> map_of D k = Some v"
  by simp

lemma Dir_children_induct [case_names children]:
  assumes "\<And>t. (\<And>c. c \<in> set (child_dirs t) \<Longrightarrow> P c) \<Longrightarrow> P t"
  shows "P t"
proof (induction t)
  case (Dir n fs ds)
  show ?case
  proof (rule assms)
    fix c assume "c \<in> set (child_dirs (Dir n fs ds))"
    then obtain l where "ds = Some l" "c \<in> set l"
      by (auto simp: child_dirs_def split: option.splits)
    then show "P c" using Dir.IH[of l c] by simp
  qed
qed

lemma holds_at_is_dir:
  assumes "holds_at D k t" and "distinct (map fst D)" shows "is_dir D k"
  using map_of_distinct[OF assms(2) holds_at_root[OF assms(1)]] by (simp add: is_dir_def)

lemma enum_dirs:
  assumes s: "storable t" and d: "distinct (map fst D)" and h: "holds_at D k t"
  defines "ns \<equiv> map fst (filter (\<lambda>(n, e). e = Directory) (dir_entries D k))"
  shows "set ns = Dir_name ` set (child_dirs t)" and "distinct ns"
proof -
  show "set ns = Dir_name ` set (child_dirs t)"
  proof (intro set_eqI iffI)
    fix nm assume "nm \<in> set ns"
    then have "(nm, Directory) \<in> set (dir_entries D k)" by (auto simp: ns_def)
    then have "(k @ [nm], Directory) \<in> set D" by (simp add: dir_entries_mem)
    then show "nm \<in> Dir_name ` set (child_dirs t)" by (simp add: holds_at_dirs[OF h])
  next
    fix nm assume a: "nm \<in> Dir_name ` set (child_dirs t)"
    then have "(k @ [nm], Directory) \<in> set D" by (simp add: holds_at_dirs[OF h])
    moreover from a storable_children(6)[OF s] have "is_component nm"
      by (auto dest: storable_children(7))
    ultimately have "(nm, Directory) \<in> set (dir_entries D k)"
      by (simp add: dir_entries_mem)
    then have "fst (nm, Directory) \<in> set ns" unfolding ns_def set_map
      by (intro imageI) simp
    then show "nm \<in> set ns" by simp
  qed
  show "distinct ns"
    unfolding ns_def using dir_entries_distinct[OF d, of k] by (rule distinct_map_filter)
qed

lemma enum_files:
  assumes s: "storable t" and d: "distinct (map fst D)" and h: "holds_at D k t"
  defines "fe \<equiv> filter (\<lambda>(n, e). e \<noteq> Directory) (dir_entries D k)"
  shows "set fe = (\<lambda>f. (File_name f, RegularFile (File_data f))) ` set (child_files t)"
    and "distinct (map fst fe)"
proof -
  show "set fe = (\<lambda>f. (File_name f, RegularFile (File_data f))) ` set (child_files t)"
  proof (intro set_eqI iffI)
    fix x assume "x \<in> set fe"
    then have xin: "x \<in> set (dir_entries D k)" and xnd: "snd x \<noteq> Directory"
      by (auto simp: fe_def)
    obtain nm e where xe: "x = (nm, e)" by (cases x)
    with xnd obtain c where "e = RegularFile c" by (cases e) auto
    with xe xin have x: "x = (nm, RegularFile c)" "(nm, RegularFile c) \<in> set (dir_entries D k)"
      by auto
    then have "(k @ [nm], RegularFile c) \<in> set D" by (simp add: dir_entries_mem)
    then obtain f where "f \<in> set (child_files t)" "File_name f = nm" "File_data f = c"
      by (auto simp: holds_at_files[OF h])
    with x(1) show "x \<in> (\<lambda>f. (File_name f, RegularFile (File_data f))) ` set (child_files t)" by auto
  next
    fix x assume "x \<in> (\<lambda>f. (File_name f, RegularFile (File_data f))) ` set (child_files t)"
    then obtain f where f: "f \<in> set (child_files t)" "x = (File_name f, RegularFile (File_data f))" by auto
    then have "(k @ [File_name f], RegularFile (File_data f)) \<in> set D"
      by (auto simp: holds_at_files[OF h])
    moreover from f storable_children(2)[OF s] have "is_component (File_name f)" by simp
    ultimately have "(File_name f, RegularFile (File_data f)) \<in> set (dir_entries D k)"
      by (simp add: dir_entries_mem)
    with f(2) show "x \<in> set fe" by (simp add: fe_def)
  qed
  show "distinct (map fst fe)"
    unfolding fe_def using dir_entries_distinct[OF d, of k] by (rule distinct_map_filter)
qed

lemma read_file:
  assumes "locate D p = Reached k" and "is_dir D k" and "distinct (map fst D)"
    and "(k @ [nm], RegularFile s) \<in> set D" and "is_component nm"
    and "filenameEx p \<noteq> []" and "CHR 0x00 \<notin> set p" and "length p + 1 + length nm < PATH_MAX"
  shows "File_fromDiskPath D (entry_path p nm) = Inr \<lparr>name' = nm, data' = Some s\<rparr>"
proof -
  have ep: "entry_path p nm = p @ [PREFERRED_PATH_SEPARATOR] @ nm"
    by (rule entry_path_plain[OF assms(6)])
  have loc: "locate D (entry_path p nm) = Reached (k @ [nm])"
    unfolding ep by (rule locate_sep[OF assms(1,2,5,7,8)])
  have m: "map_of D (k @ [nm]) = Some (RegularFile s)" by (rule map_of_distinct[OF assms(3,4)])
  then have nd: "\<not> is_dir D (k @ [nm])" by (simp add: is_dir_def)
  from loc m nd have o: "ifstream_open D (entry_path p nm) = Some (OpenFile s)"
    by (simp add: ifstream_open_def)
  have fn: "filenameEx (entry_path p nm) = nm"
    unfolding ep using assms(5)
    by (simp add: PREFERRED_PATH_SEPARATOR_def filenameEx_sep is_component_def)
  show ?thesis
    by (simp add: File_fromDiskPath_def o fn File_named_def File_setName_def File_default_def
        File_read_def File_data_def)
qed

lemma mset_eq_of_distinct_set: "distinct xs \<Longrightarrow> distinct ys \<Longrightarrow> set xs = set ys \<Longrightarrow> mset xs = mset ys"
  by (simp add: set_eq_iff_mset_eq_distinct)

lemma sum_list_mset_cong:
  fixes J :: "'a \<Rightarrow> 'b multiset"
  assumes "mset xs = mset ys"
  shows "sum_list (map J xs) = sum_list (map J ys)"
proof -
  have "sum_list (map J xs) = sum_mset (mset (map J xs))" by (rule sum_mset_sum_list[symmetric])
  also have "\<dots> = sum_mset (image_mset J (mset xs))" by simp
  also have "\<dots> = sum_mset (image_mset J (mset ys))" by (simp add: assms)
  also have "\<dots> = sum_mset (mset (map J ys))" by simp
  also have "\<dots> = sum_list (map J ys)" by (rule sum_mset_sum_list)
  finally show ?thesis .
qed

lemma mset_reloaded_dirs:
  assumes "distinct ns" and "distinct (map Dir_name C)" and "set ns = Dir_name ` set C"
    and "\<forall>c\<in>set C. Dir_name (g (Dir_name c)) = Dir_name c
            \<and> mset (paths_list (g (Dir_name c))) = mset (paths_list c)"
  shows "mset (concat (map (\<lambda>c. map (\<lambda>(p, x). (Dir_name c # p, x)) (paths_list c)) (map g ns)))
       = mset (concat (map (\<lambda>c. map (\<lambda>(p, x). (Dir_name c # p, x)) (paths_list c)) C))"
proof -
  let ?H = "\<lambda>c. map (\<lambda>(p, x). (Dir_name c # p, x)) (paths_list c)"
  let ?J = "\<lambda>nm. mset (?H (g nm))"
  have ms: "mset ns = mset (map Dir_name C)"
    using assms(1,2,3) by (intro mset_eq_of_distinct_set) simp_all
  have J: "?J (Dir_name c) = mset (?H c)" if "c \<in> set C" for c
  proof -
    from assms(4) that have a: "Dir_name (g (Dir_name c)) = Dir_name c"
      and b: "mset (paths_list (g (Dir_name c))) = mset (paths_list c)" by auto
    have "mset (?H (g (Dir_name c)))
        = image_mset (\<lambda>(p, x). (Dir_name c # p, x)) (mset (paths_list (g (Dir_name c))))"
      by (simp add: a)
    also have "\<dots> = mset (?H c)" by (simp add: b)
    finally show ?thesis .
  qed
  have "mset (concat (map ?H (map g ns))) = sum_list (map ?J ns)"
    by (simp add: mset_concat comp_def)
  also have "\<dots> = sum_list (map ?J (map Dir_name C))" using ms by (rule sum_list_mset_cong)
  also have "\<dots> = sum_list (map (\<lambda>c. ?J (Dir_name c)) C)"
    by (simp only: map_map comp_def)
  also have "\<dots> = sum_list (map (\<lambda>c. mset (?H c)) C)"
    by (rule arg_cong[where f = sum_list], rule map_cong[OF refl]) (erule J)
  also have "\<dots> = mset (concat (map ?H C))" by (simp add: mset_concat comp_def)
  finally show ?thesis .
qed

lemma isDirectory_iff: "isDirectory D p = Inr True \<longleftrightarrow> (\<exists>k. locate D p = Reached k \<and> is_dir D k)"
proof
  assume "isDirectory D p = Inr True"
  then show "\<exists>k. locate D p = Reached k \<and> is_dir D k"
    by (cases "locate D p")
       (auto simp: isDirectory_def status_def is_dir_def split: option.splits entry.splits if_splits)
next
  assume "\<exists>k. locate D p = Reached k \<and> is_dir D k"
  then show "isDirectory D p = Inr True"
    by (auto simp: isDirectory_def status_def is_dir_def)
qed

lemma paths_list_eq:
  "paths_list t = ([], None) # map (\<lambda>f. ([File_name f], Some (File_data f))) (child_files t)
     @ concat (map (\<lambda>c. map (\<lambda>(p, x). (Dir_name c # p, x)) (paths_list c)) (child_dirs t))"
  by (cases t) (simp add: child_files_def child_dirs_def)

lemma read_tree:
  assumes "storable t" and "distinct (map fst D)" and "locate D p = Reached k"
    and "filenameEx p = Dir_name t" and "holds_at D k t"
    and "fits (length p) t" and "CHR 0x00 \<notin> set p"
  shows "\<exists>t'. Dir_fromDiskPath D p = Some (Inr t') \<and> Dir_name t' = Dir_name t
           \<and> mset (paths_list t') = mset (paths_list t)"
  using assms
proof (induction t arbitrary: p k rule: Dir_children_induct)
  case (children t)
  note s = children.prems(1) and d = children.prems(2) and loc = children.prems(3)
    and fn = children.prems(4) and h = children.prems(5) and ft = children.prems(6)
    and nul = children.prems(7)
  have fne: "filenameEx p \<noteq> []"
    using storable_children(7)[OF s] fn by (auto simp: is_component_def)
  have ep: "entry_path p nm = p @ [PREFERRED_PATH_SEPARATOR] @ nm" for nm
    by (rule entry_path_plain[OF fne])
  have flen: "\<forall>f\<in>set (child_files t). length p + 1 + length (File_name f) < PATH_MAX"
    and cfit: "\<forall>c\<in>set (child_dirs t). fits (length p + 1 + length (Dir_name c)) c"
    using ft unfolding fits_iff[of "length p" t] by simp_all
  define n where "n = Dir_name t"
  define E where "E = dir_entries D k"
  define ns where "ns = map fst (filter (\<lambda>(n, e). e = Directory) E)"
  define fe where "fe = filter (\<lambda>(n, e). e \<noteq> Directory) E"
  define mkf where "mkf = (\<lambda>x::string \<times> entry.
      \<lparr>name' = fst x, data' = Some (case snd x of RegularFile c \<Rightarrow> c | Directory \<Rightarrow> [])\<rparr>)"
  have isd: "is_dir D k" by (rule holds_at_is_dir[OF h d])
  have isD: "isDirectory D p = Inr True" using loc isd by (auto simp: isDirectory_iff)
  have valid: "isValidFilename n" unfolding n_def by (rule storable_children(1)[OF s])
  have named: "Dir_named (filenameEx p) = Inr (Dir n None None)"
    using valid fn by (simp add: Dir_named_def Dir_setName_def Dir_default_def n_def)
  have ns_set: "set ns = Dir_name ` set (child_dirs t)" and ns_dist: "distinct ns"
    unfolding ns_def E_def by (rule enum_dirs[OF s d h])+
  have fe_set: "set fe = (\<lambda>f. (File_name f, RegularFile (File_data f))) ` set (child_files t)"
    and fe_dist: "distinct (map fst fe)"
    unfolding fe_def E_def by (rule enum_files[OF s d h])+
  have gd: "getAllDirectorys D p = Inr (map (entry_path p) ns)"
    using isD loc
    by (simp add: getAllDirectorys_def ns_def E_def case_prod_beta comp_def)
  have gf: "getAllFiles D p = Inr (map (\<lambda>x. entry_path p (fst x)) fe)"
    using isD loc
    by (simp add: getAllFiles_def fe_def E_def case_prod_beta)
  \<comment> \<open>the child directories\<close>
  have "\<forall>nm\<in>set ns. \<exists>x. Dir_fromDiskPath D (entry_path p nm) = Some (Inr x) \<and> Dir_name x = nm
          \<and> (\<forall>c\<in>set (child_dirs t). Dir_name c = nm \<longrightarrow> mset (paths_list x) = mset (paths_list c))"
  proof
    fix nm assume "nm \<in> set ns"
    with ns_set obtain c where c: "c \<in> set (child_dirs t)" "Dir_name c = nm" by auto
    have sc: "storable c" using storable_children(6)[OF s] c(1) by simp
    have comp: "is_component nm"
      using storable_children(7)[OF sc] c(2) by simp
    have "fits (length p + 1 + length (Dir_name c)) c" using cfit c(1) by blast
    then have plen: "length p + 1 + length nm < PATH_MAX"
      unfolding fits_iff[of _ c] using c(2) by simp
    have "\<exists>t'. Dir_fromDiskPath D (entry_path p nm) = Some (Inr t') \<and> Dir_name t' = Dir_name c
           \<and> mset (paths_list t') = mset (paths_list c)"
    proof (rule children.IH[OF c(1) sc d])
      show "locate D (entry_path p nm) = Reached (k @ [Dir_name c])"
        unfolding ep using locate_sep[OF loc isd comp nul plen] c(2) by simp
      show "filenameEx (entry_path p nm) = Dir_name c"
        unfolding ep using comp c(2)
        by (simp add: PREFERRED_PATH_SEPARATOR_def filenameEx_sep is_component_def)
      show "holds_at D (k @ [Dir_name c]) c" by (rule holds_at_child[OF h s c(1)])
      show "fits (length (entry_path p nm)) c"
        unfolding ep using bspec[OF cfit c(1)] c(2) by simp
      show "CHR 0x00 \<notin> set (entry_path p nm)"
        unfolding ep using nul comp by (auto simp: PREFERRED_PATH_SEPARATOR_def is_component_def)
    qed
    then obtain x where x: "Dir_fromDiskPath D (entry_path p nm) = Some (Inr x)" "Dir_name x = Dir_name c"
      "mset (paths_list x) = mset (paths_list c)" by blast
    have "\<forall>c'\<in>set (child_dirs t). Dir_name c' = nm \<longrightarrow> mset (paths_list x) = mset (paths_list c')"
    proof (intro ballI impI)
      fix c' assume "c' \<in> set (child_dirs t)" "Dir_name c' = nm"
      with c storable_children(4)[OF s] have "c' = c"
        by (auto simp: distinct_map dest: inj_onD)
      with x(3) show "mset (paths_list x) = mset (paths_list c')" by simp
    qed
    with x c(2) show "\<exists>x. Dir_fromDiskPath D (entry_path p nm) = Some (Inr x) \<and> Dir_name x = nm
          \<and> (\<forall>c\<in>set (child_dirs t). Dir_name c = nm \<longrightarrow> mset (paths_list x) = mset (paths_list c))"
      by auto
  qed
  then obtain g where g: "\<forall>nm\<in>set ns. Dir_fromDiskPath D (entry_path p nm) = Some (Inr (g nm)) \<and> Dir_name (g nm) = nm
          \<and> (\<forall>c\<in>set (child_dirs t). Dir_name c = nm \<longrightarrow> mset (paths_list (g nm)) = mset (paths_list c))"
    using bchoice[of "set ns" "\<lambda>nm x. Dir_fromDiskPath D (entry_path p nm) = Some (Inr x) \<and> Dir_name x = nm
          \<and> (\<forall>c\<in>set (child_dirs t). Dir_name c = nm \<longrightarrow> mset (paths_list x) = mset (paths_list c))"]
    by blast
  define r1 where "r1 = Dir n None (if ns = [] then None else Some (map g ns))"
  have fold1: "foldEO (\<lambda>var root. Option.bind (Dir_fromDiskPath D var)
                  (\<lambda>r. case r of Inl e \<Rightarrow> Some (Inl e)
                        | Inr x \<Rightarrow> Some (Inr (fst (add_Dir root x False)))))
                 (map (entry_path p) ns) (Dir n None None) = Some (Inr r1)"
  proof -
    have "foldEO (\<lambda>var root. Option.bind ((\<lambda>nm. Dir_fromDiskPath D (entry_path p nm)) var)
                  (\<lambda>r. case r of Inl e \<Rightarrow> Some (Inl e)
                        | Inr x \<Rightarrow> Some (Inr (fst (add_Dir root x False))))) ns (Dir n None None)
        = Some (Inr (Dir (dir_name' (Dir n None None)) (subFiles' (Dir n None None))
               (if ns = [] then subDirs' (Dir n None None)
                else Some (child_dirs (Dir n None None) @ map g ns))))"
    proof (rule fold_add_dirs[where nm = "\<lambda>x. x"])
      show "\<forall>v\<in>set ns. Dir_fromDiskPath D (entry_path p v) = Some (Inr (g v)) \<and> Dir_name (g v) = v"
        using g by simp
      show "distinct (map (\<lambda>x. x) ns)" using ns_dist by simp
      show "(\<lambda>x. x) ` set ns \<inter> Dir_name ` set (child_dirs (Dir n None None)) = {}"
        by (simp add: child_dirs_def)
    qed
    then show ?thesis by (simp add: foldEO_map r1_def child_dirs_def)
  qed
  \<comment> \<open>the child files\<close>
  have rf: "\<forall>v\<in>set fe. File_fromDiskPath D (entry_path p (fst v)) = Inr (mkf v) \<and> File_name (mkf v) = fst v"
  proof
    fix v assume v: "v \<in> set fe"
    with fe_set obtain f where f: "f \<in> set (child_files t)" "v = (File_name f, RegularFile (File_data f))"
      by auto
    have inD: "(k @ [File_name f], RegularFile (File_data f)) \<in> set D"
      using f(1) by (auto simp: holds_at_files[OF h])
    have comp: "is_component (File_name f)"
      using storable_children(2)[OF s] f(1) by simp
    have plen: "length p + 1 + length (File_name f) < PATH_MAX" using flen f(1) by simp
    from read_file[OF loc isd d inD comp fne nul plen] f(2)
    show "File_fromDiskPath D (entry_path p (fst v)) = Inr (mkf v) \<and> File_name (mkf v) = fst v"
      by (simp add: mkf_def File_name_def)
  qed
  define t' where "t' = Dir n (if fe = [] then None else Some (map mkf fe))
                              (if ns = [] then None else Some (map g ns))"
  have fold2: "foldE (\<lambda>var root. case File_fromDiskPath D var of Inl e \<Rightarrow> Inl e
                                  | Inr f \<Rightarrow> Inr (fst (add_File root f False)))
                 (map (\<lambda>x. entry_path p (fst x)) fe) r1 = Inr t'"
  proof -
    have "foldE (\<lambda>var root. case (\<lambda>v. File_fromDiskPath D (entry_path p (fst v))) var of Inl e \<Rightarrow> Inl e
                                  | Inr x \<Rightarrow> Inr (fst (add_File root x False))) fe r1
        = Inr (Dir (dir_name' r1)
               (if fe = [] then subFiles' r1 else Some (child_files r1 @ map mkf fe)) (subDirs' r1))"
    proof (rule fold_add_files[where nm = fst])
      show "\<forall>v\<in>set fe. File_fromDiskPath D (entry_path p (fst v)) = Inr (mkf v) \<and> File_name (mkf v) = fst v"
        by (rule rf)
      show "distinct (map fst fe)" by (rule fe_dist)
      show "fst ` set fe \<inter> File_name ` set (child_files r1) = {}"
        by (simp add: child_files_def r1_def)
    qed
    then show ?thesis by (simp add: foldE_map r1_def t'_def child_files_def)
  qed
  have res: "Dir_fromDiskPath D p = Some (Inr t')"
    by (subst Dir_fromDiskPath.simps) (simp add: named gd gf fold1 fold2)
  have nm': "Dir_name t' = Dir_name t" by (simp add: t'_def Dir_name_def n_def)
  \<comment> \<open>what the two trees hold\<close>
  have cf': "child_files t' = map mkf fe" and cd': "child_dirs t' = map g ns"
    by (simp_all add: t'_def child_files_def child_dirs_def)
  let ?fent = "\<lambda>f. (File_name f, RegularFile (File_data f))"
  let ?q = "\<lambda>x::string \<times> entry. ([fst x], Some (case snd x of RegularFile c \<Rightarrow> c | Directory \<Rightarrow> []))"
  have "distinct (map ?fent (child_files t))"
  proof -
    have "distinct (map fst (map ?fent (child_files t)))"
      using storable_children(3)[OF s] by (simp add: comp_def)
    then show ?thesis by (metis distinct_map)
  qed
  moreover have "distinct fe" using fe_dist by (metis distinct_map)
  ultimately have msf: "mset fe = mset (map ?fent (child_files t))"
    using fe_set by (intro mset_eq_of_distinct_set) simp_all
  have files: "mset (map (\<lambda>f. ([File_name f], Some (File_data f))) (map mkf fe))
             = mset (map (\<lambda>f. ([File_name f], Some (File_data f))) (child_files t))"
  proof -
    have A: "map (\<lambda>f. ([File_name f], Some (File_data f))) (map mkf fe) = map ?q fe"
      by (simp add: mkf_def File_name_def File_data_def)
    have B: "map ?q (map ?fent (child_files t))
        = map (\<lambda>f. ([File_name f], Some (File_data f))) (child_files t)" by simp
    have "mset (map (\<lambda>f. ([File_name f], Some (File_data f))) (map mkf fe)) = mset (map ?q fe)"
      by (simp only: A)
    also have "\<dots> = mset (map ?q (map ?fent (child_files t)))"
      using msf by (metis mset_map)
    also have "\<dots> = mset (map (\<lambda>f. ([File_name f], Some (File_data f))) (child_files t))"
      by (simp only: B)
    finally show ?thesis .
  qed
  have dirs: "mset (concat (map (\<lambda>c. map (\<lambda>(p, x). (Dir_name c # p, x)) (paths_list c)) (map g ns)))
       = mset (concat (map (\<lambda>c. map (\<lambda>(p, x). (Dir_name c # p, x)) (paths_list c)) (child_dirs t)))"
  proof (rule mset_reloaded_dirs[OF ns_dist storable_children(4)[OF s] ns_set])
    show "\<forall>c\<in>set (child_dirs t). Dir_name (g (Dir_name c)) = Dir_name c
            \<and> mset (paths_list (g (Dir_name c))) = mset (paths_list c)"
      using g ns_set by auto
  qed
  have "mset (paths_list t') = mset (paths_list t)"
    by (subst paths_list_eq[of t'], subst paths_list_eq[of t])
       (simp only: cf' cd' mset.simps mset_append files dirs)
  with res nm' show ?case by blast
qed

lemma tree_entries_blocks_distinct:
  assumes "distinct (map Dir_name cs)"
    and "\<forall>c\<in>set cs. distinct (map fst (tree_entries (k @ [Dir_name c]) c))"
  shows "distinct (map fst (concat (map (\<lambda>c. tree_entries (k @ [Dir_name c]) c) cs)))"
  using assms
proof (induction cs)
  case Nil then show ?case by simp
next
  case (Cons c cs)
  have "fst ` set (tree_entries (k @ [Dir_name c]) c)
        \<inter> fst ` (\<Union>c'\<in>set cs. set (tree_entries (k @ [Dir_name c']) c')) = {}"
  proof -
    have False if x: "x \<in> set (tree_entries (k @ [Dir_name c]) c)"
      and c': "c' \<in> set cs" and y: "y \<in> set (tree_entries (k @ [Dir_name c']) c')" and e: "fst x = fst y"
      for x y c'
    proof -
      from tree_entries_prefix[OF x] tree_entries_prefix[OF y] e
      have "Dir_name c = Dir_name c'" using prefix_snoc_same by metis
      with c' Cons.prems(1) show False by (auto simp: image_iff)
    qed
    then show ?thesis by blast
  qed
  with Cons show ?case by simp
qed

lemma tree_entries_distinct: "storable t \<Longrightarrow> distinct (map fst (tree_entries k t))"
proof (induction t arbitrary: k rule: Dir_children_induct)
  case (children t)
  note s = children.prems
  let ?F = "map (\<lambda>f. (k @ [File_name f], RegularFile (File_data f))) (child_files t)"
  let ?B = "concat (map (\<lambda>c. tree_entries (k @ [Dir_name c]) c) (child_dirs t))"
  have te: "tree_entries k t = (k, Directory) # ?F @ ?B"
    by (cases t) (simp add: child_files_def child_dirs_def)
  have dF: "distinct (map fst ?F)"
  proof -
    have "map fst ?F = map ((@) k) (map (\<lambda>f. [File_name f]) (child_files t))" by (simp add: comp_def)
    moreover have "distinct (map (\<lambda>f. [File_name f]) (child_files t))"
      using storable_children(3)[OF s] by (simp add: distinct_map inj_on_def)
    ultimately show ?thesis by (simp add: distinct_map inj_on_def del: map_map)
  qed
  have dB: "distinct (map fst ?B)"
  proof (rule tree_entries_blocks_distinct[OF storable_children(4)[OF s]])
    show "\<forall>c\<in>set (child_dirs t). distinct (map fst (tree_entries (k @ [Dir_name c]) c))"
      using children.IH storable_children(6)[OF s] by simp
  qed
  have kF: "k \<notin> fst ` set ?F" by auto
  have kB: "k \<notin> fst ` set ?B"
  proof
    assume "k \<in> fst ` set ?B"
    then obtain x c where "x \<in> set (tree_entries (k @ [Dir_name c]) c)" "fst x = k" by auto
    with tree_entries_prefix[of x "k @ [Dir_name c]" c] show False by (simp add: not_prefix_snoc_self)
  qed
  have FB: "fst ` set ?F \<inter> fst ` set ?B = {}"
  proof -
    have False if f: "f \<in> set (child_files t)" and c: "c \<in> set (child_dirs t)"
      and x: "x \<in> set (tree_entries (k @ [Dir_name c]) c)" and e: "fst x = k @ [File_name f]"
      for f c x
    proof -
      from tree_entries_prefix[OF x] e have "Dir_name c = File_name f" by (simp add: prefix_snoc_snoc)
      with f c storable_children(5)[OF s] show False by auto
    qed
    then show ?thesis by fastforce
  qed
  show ?case unfolding te using dF dB kF kB FB by (simp add: image_image comp_def)
qed

lemma is_dir_subset:
  assumes "set D \<subseteq> set D'" and "distinct (map fst D')" and "is_dir D c" shows "is_dir D' c"
proof (cases "c = []")
  case True then show ?thesis by (simp add: is_dir_def)
next
  case False
  with assms(3) have "map_of D c = Some Directory" by (simp add: is_dir_def)
  then have "(c, Directory) \<in> set D" by (rule map_of_SomeD)
  with assms(1) have "(c, Directory) \<in> set D'" by auto
  with assms(2) show ?thesis by (simp add: is_dir_def)
qed

text \<open>
  What the hypotheses of the round trip keep out: a name with a zero byte is written
  under the part before that byte, a name of more than \<open>NAME_MAX\<close> bytes is not written
  at all, and a root without a name is written into \<open>path\<close> itself and cannot be read
  back, since the directory read gets its name from the path. A written tree is read back
  by running the model.
\<close>

lemma zero_byte_name_written_short:
  "Dir_write (Dir ''proj'' (Some [\<lparr>name' = ''a'' @ [CHR 0x00] @ ''b'', data' = Some ''hi''\<rparr>]) None)
        ''/tmp'' True Binary [([''tmp''], Directory)]
     = Inr [([''tmp''], Directory), ([''tmp'', ''proj''], Directory),
            ([''tmp'', ''proj'', ''a''], RegularFile ''hi'')]"
  by code_simp

lemma long_name_not_written:
  "Dir_write (Dir ''proj'' (Some [\<lparr>name' = replicate 256 (CHR ''a''), data' = Some ''hi''\<rparr>]) None)
        ''/tmp'' True Binary [([''tmp''], Directory)]
     = Inl (FailedToOpen (''/tmp/proj/'' @ replicate 256 (CHR ''a'')))"
  by code_simp

lemma unnamed_root_not_read:
  "Dir_write (Dir [] (Some [\<lparr>name' = ''f'', data' = Some ''hi''\<rparr>]) None)
        ''/tmp/new'' True Binary [([''tmp''], Directory)]
     = Inr [([''tmp''], Directory), ([''tmp'', ''new''], Directory),
            ([''tmp'', ''new'', ''f''], RegularFile ''hi'')]"
  "Dir_fromDiskPath [([''tmp''], Directory), ([''tmp'', ''new''], Directory),
            ([''tmp'', ''new'', ''f''], RegularFile ''hi'')] ''/tmp/new/''
     = Some (Inl (InvalidFileName []))"
  by code_simp+

lemma read_written_tree:
  "Dir_fromDiskPath
     [([''tmp''], Directory), ([''tmp'', ''proj''], Directory),
      ([''tmp'', ''proj'', ''a.txt''], RegularFile ''hi''),
      ([''tmp'', ''proj'', ''src''], Directory),
      ([''tmp'', ''proj'', ''src'', ''b.txt''], RegularFile ''bye'')] ''/tmp/proj''
   = Some (Inr (Dir ''proj'' (Some [\<lparr>name' = ''a.txt'', data' = Some ''hi''\<rparr>])
        (Some [Dir ''src'' (Some [\<lparr>name' = ''b.txt'', data' = Some ''bye''\<rparr>]) None])))"
  by code_simp

text \<open>
  Claim C2, as stated, has every tree whose files all have a payload written and read
  back with the same names. In memory a file and a directory of one parent may share a
  name; on disk they cannot. Here the root holds a file \<open>x\<close> and an empty directory
  \<open>x\<close>: the file is written first, and creating the directory of the same name then
  fails.
\<close>

theorem shared_name_not_written_counterexample:
  "list_all (\<lambda>f. data' f \<noteq> None)
     (child_files (Dir ''proj'' (Some [\<lparr>name' = ''x'', data' = Some ''hi''\<rparr>]) (Some [Dir ''x'' None None])))
   \<and> child_files (Dir ''x'' None None) = []
   \<and> Dir_write (Dir ''proj'' (Some [\<lparr>name' = ''x'', data' = Some ''hi''\<rparr>]) (Some [Dir ''x'' None None]))
        ''/tmp'' True Binary [([''tmp''], Directory)]
      = Inl (FilesystemError ''/tmp/proj/x'')"
  by code_simp

text \<open>
  Claim C2, amended. Let the tree be storable: every directory in it has a valid file
  name, every name in it is one that a directory of the disk can hold (not empty, not
  \<open>.\<close> or \<open>..\<close>, without separator and zero byte, of at most \<open>NAME_MAX\<close> bytes), the
  children of each directory have pairwise different names, files and directories taken
  together, and every file has a payload. Let no path of the written tree reach
  \<open>PATH_MAX\<close> bytes, and let \<open>path\<close> have no zero byte. Let the disk have one entry for
  a path, let \<open>path\<close> lead to a directory of the disk, and let nothing be at or below
  the root's name in it. Then \<open>Dir_write\<close> succeeds, with either value of the overwrite
  flag and either open mode, and on every disk that holds the entries of the disk
  written, in whatever order an iterator yields them, \<open>Dir_fromDiskPath\<close> of the
  written root directory returns, and returns a tree with the root's name that holds the
  same directories and the same files with the same payloads, under the same names at
  every level. This is so for every storable tree, hence for every order in which its
  children were inserted.
\<close>

theorem write_read_roundtrip:
  assumes "storable t" and "fits (length path + 1 + length (Dir_name t)) t"
    and "CHR 0x00 \<notin> set path"
    and "distinct (map fst D)" and "locate D path = Reached k" and "is_dir D k"
    and "\<forall>x\<in>set D. \<not> prefix (k @ [Dir_name t]) (fst x)"
  shows "\<exists>D1. Dir_write t path isOverwrite mode D = Inr D1
           \<and> (\<forall>D'. mset D' = mset D1 \<longrightarrow>
                (\<exists>t'. Dir_fromDiskPath D' (path @ [PREFERRED_PATH_SEPARATOR] @ Dir_name t) = Some (Inr t')
                    \<and> Dir_name t' = Dir_name t
                    \<and> mset (paths_list t') = mset (paths_list t)))"
proof -
  define kk where "kk = k @ [Dir_name t]"
  define D1 where "D1 = D @ tree_entries kk t"
  define root where "root = path @ [PREFERRED_PATH_SEPARATOR] @ Dir_name t"
  have lroot: "length root = length path + 1 + length (Dir_name t)" by (simp add: root_def)
  have w: "Dir_write t path isOverwrite mode D = Inr D1"
    unfolding D1_def kk_def by (rule Dir_write_fresh[OF assms(1,2,3,5,6,7)])
  have comp: "is_component (Dir_name t)" by (rule storable_children(7)[OF assms(1)])
  have rlen: "length path + 1 + length (Dir_name t) < PATH_MAX"
    using assms(2) unfolding fits_iff[of _ t] by simp
  have rnul: "CHR 0x00 \<notin> set root"
    using assms(3) comp by (auto simp: root_def PREFERRED_PATH_SEPARATOR_def is_component_def)
  have d1: "distinct (map fst D1)"
  proof -
    have "fst ` set D \<inter> fst ` set (tree_entries kk t) = {}"
    proof -
      have False if "x \<in> set D" "y \<in> set (tree_entries kk t)" "fst x = fst y" for x y
        using that tree_entries_prefix[of y kk t] assms(7) by (auto simp: kk_def)
      then show ?thesis by blast
    qed
    with assms(4) tree_entries_distinct[OF assms(1), of kk] show ?thesis by (simp add: D1_def)
  qed
  have "\<exists>t'. Dir_fromDiskPath D' root = Some (Inr t') \<and> Dir_name t' = Dir_name t
           \<and> mset (paths_list t') = mset (paths_list t)"
    if m: "mset D' = mset D1" for D'
  proof (rule read_tree[OF assms(1)])
    have sets: "set D' = set D1" using m by (rule mset_eq_setD)
    have "mset (map fst D') = mset (map fst D1)" using m by simp
    then show d': "distinct (map fst D')" using d1 by (metis distinct_count_atmost_1 set_mset_mset)
    have sub: "set D \<subseteq> set D'" using sets by (auto simp: D1_def)
    have lk: "locate D' path = Reached k"
      by (rule locate_mono[OF is_dir_subset[OF sub d'] assms(5)])
    have dk: "is_dir D' k" by (rule is_dir_subset[OF sub d' assms(6)])
    show "locate D' root = Reached kk"
      unfolding root_def kk_def by (rule locate_sep[OF lk dk comp assms(3) rlen])
    show "filenameEx root = Dir_name t"
      using comp by (simp add: root_def PREFERRED_PATH_SEPARATOR_def filenameEx_sep is_component_def)
    show "holds_at D' kk t"
      unfolding holds_at_def
    proof (intro allI iffI)
      fix x assume "x \<in> set D' \<and> prefix kk (fst x)"
      with sets assms(7) show "x \<in> set (tree_entries kk t)" by (auto simp: D1_def kk_def)
    next
      fix x assume x: "x \<in> set (tree_entries kk t)"
      with sets tree_entries_prefix[OF x] show "x \<in> set D' \<and> prefix kk (fst x)" by (simp add: D1_def)
    qed
    show "fits (length root) t" using assms(2) by (simp add: lroot)
    show "CHR 0x00 \<notin> set root" by (rule rnul)
  qed
  with w show ?thesis unfolding root_def by blast
qed

theorem write_read_roundtrip_witness:
  "storable (Dir ''proj'' (Some [\<lparr>name' = ''a.txt'', data' = Some ''hi''\<rparr>, \<lparr>name' = ''a:b'', data' = Some []\<rparr>])
          (Some [Dir ''src'' (Some [\<lparr>name' = ''b.txt'', data' = Some ''bye''\<rparr>]) None]))
   \<and> fits (length ''/tmp'' + 1 + length ''proj'')
        (Dir ''proj'' (Some [\<lparr>name' = ''a.txt'', data' = Some ''hi''\<rparr>, \<lparr>name' = ''a:b'', data' = Some []\<rparr>])
          (Some [Dir ''src'' (Some [\<lparr>name' = ''b.txt'', data' = Some ''bye''\<rparr>]) None]))
   \<and> CHR 0x00 \<notin> set ''/tmp''
   \<and> distinct (map fst [([''tmp''], Directory)])
   \<and> locate [([''tmp''], Directory)] ''/tmp'' = Reached [''tmp'']
   \<and> is_dir [([''tmp''], Directory)] [''tmp'']
   \<and> Dir_write (Dir ''proj'' (Some [\<lparr>name' = ''a.txt'', data' = Some ''hi''\<rparr>, \<lparr>name' = ''a:b'', data' = Some []\<rparr>])
          (Some [Dir ''src'' (Some [\<lparr>name' = ''b.txt'', data' = Some ''bye''\<rparr>]) None])) ''/tmp'' False Binary
         [([''tmp''], Directory)]
       = Inr [([''tmp''], Directory), ([''tmp'', ''proj''], Directory),
              ([''tmp'', ''proj'', ''a.txt''], RegularFile ''hi''),
              ([''tmp'', ''proj'', ''a:b''], RegularFile []),
              ([''tmp'', ''proj'', ''src''], Directory),
              ([''tmp'', ''proj'', ''src'', ''b.txt''], RegularFile ''bye'')]
   \<and> (\<exists>t'. Dir_fromDiskPath
              [([''tmp'', ''proj'', ''src'', ''b.txt''], RegularFile ''bye''),
               ([''tmp'', ''proj'', ''src''], Directory),
               ([''tmp'', ''proj'', ''a:b''], RegularFile []),
               ([''tmp'', ''proj'', ''a.txt''], RegularFile ''hi''),
               ([''tmp'', ''proj''], Directory), ([''tmp''], Directory)]
              (''/tmp'' @ [PREFERRED_PATH_SEPARATOR] @ ''proj'') = Some (Inr t')
          \<and> Dir_name t' = ''proj''
          \<and> mset (paths_list t') =
              {#([], None), ([''a.txt''], Some ''hi''), ([''a:b''], Some []), ([''src''], None),
                ([''src'', ''b.txt''], Some ''bye'')#})"
proof -
  let ?t = "Dir ''proj'' (Some [\<lparr>name' = ''a.txt'', data' = Some ''hi''\<rparr>, \<lparr>name' = ''a:b'', data' = Some []\<rparr>])
          (Some [Dir ''src'' (Some [\<lparr>name' = ''b.txt'', data' = Some ''bye''\<rparr>]) None])"
  let ?D = "[([''tmp''], Directory)]"
  let ?D1 = "[([''tmp''], Directory), ([''tmp'', ''proj''], Directory),
              ([''tmp'', ''proj'', ''a.txt''], RegularFile ''hi''),
              ([''tmp'', ''proj'', ''a:b''], RegularFile []),
              ([''tmp'', ''proj'', ''src''], Directory),
              ([''tmp'', ''proj'', ''src'', ''b.txt''], RegularFile ''bye'')]"
  have n: "Dir_name ?t = ''proj''" by (simp add: Dir_name_def)
  have h1: "storable ?t" by code_simp
  have h2: "fits (length ''/tmp'' + 1 + length (Dir_name ?t)) ?t" by code_simp
  have h3: "CHR 0x00 \<notin> set ''/tmp''" by simp
  have h4: "distinct (map fst ?D)" by simp
  have h5: "locate ?D ''/tmp'' = Reached [''tmp'']" by code_simp
  have h6: "is_dir ?D [''tmp'']" by code_simp
  have h7: "\<forall>x\<in>set ?D. \<not> prefix ([''tmp''] @ [Dir_name ?t]) (fst x)" by (simp add: Dir_name_def)
  have w: "Dir_write ?t ''/tmp'' False Binary ?D = Inr ?D1" by code_simp
  have p: "mset (paths_list ?t)
      = {#([], None), ([''a.txt''], Some ''hi''), ([''a:b''], Some []), ([''src''], None),
          ([''src'', ''b.txt''], Some ''bye'')#}"
    by (simp add: File_name_def File_data_def Dir_name_def)
  from write_read_roundtrip[OF h1 h2 h3 h4 h5 h6 h7, of False Binary] w
  have "\<forall>D'. mset D' = mset ?D1 \<longrightarrow>
          (\<exists>t'. Dir_fromDiskPath D' (''/tmp'' @ [PREFERRED_PATH_SEPARATOR] @ Dir_name ?t) = Some (Inr t')
              \<and> Dir_name t' = Dir_name ?t \<and> mset (paths_list t') = mset (paths_list ?t))"
    by simp
  then have "\<exists>t'. Dir_fromDiskPath (rev ?D1) (''/tmp'' @ [PREFERRED_PATH_SEPARATOR] @ Dir_name ?t) = Some (Inr t')
              \<and> Dir_name t' = Dir_name ?t \<and> mset (paths_list t') = mset (paths_list ?t)"
    by (metis mset_rev)
  with h1 h2 h3 h4 h5 h6 w show ?thesis unfolding p n by simp
qed

end
